theory Spec2Isabelle
  imports Main "HOL-Library.Word" "HOL-Library.Log_Nat"
begin

unbundle bit_operations_syntax

section \<open>The NTFS journal (\<open>$LogFile\<close>) restart-page checks of \<open>ntfs_logfile.c\<close>\<close>

text \<open>
  The development embeds the functions of \<open>src/kext/ntfs_logfile.c\<close>:
  \<open>ntfs_restart_page_header_is_valid\<close>, \<open>ntfs_restart_area_is_valid\<close>,
  \<open>ntfs_log_client_array_is_consistent\<close>, \<open>ntfs_restart_page_load\<close>,
  \<open>ntfs_logfile_check\<close>, \<open>ntfs_logfile_is_clean\<close> and \<open>ntfs_logfile_empty\<close>.

  Conventions.
  \<^item> On-disk fields are words of their declared width (\<open>le16\<close> is \<open>16 word\<close>,
    \<open>le32\<close> is \<open>32 word\<close>, \<open>sle64\<close> and \<open>LSN\<close> are \<open>64 word\<close> read with \<open>sint\<close>).
    A record field holds the decoded value, so \<open>le16_to_cpu\<close> and its siblings are the
    identity and \<open>LOGFILE_NO_CLIENT\<close> and \<open>LOGFILE_NO_CLIENT_CPU\<close> are one value.
  \<^item> A buffer that the C code reads through a struct pointer is the record of the fields
    read through that pointer: the header, the restart area found at the header's
    \<open>restart_area_offset\<close>, and the log client array found at the area's
    \<open>client_array_offset\<close> (a function from the index to the record, since the C code
    indexes raw memory).
  \<^item> The constants, macros and struct sizes of the driver's headers (\<open>ntfs_layout.h\<close>,
    \<open>ntfs_logfile.h\<close>, \<open>ntfs.h\<close>) are not part of the source at hand; they are the
    fields of the record \<open>ntfs_consts\<close>, a parameter of every function. C expressions
    over them are computed exactly, in \<open>nat\<close> or \<open>int\<close>; a value stored in a C variable
    of fixed width is truncated to that width where the source does so.
  \<^item> \<open>errno_t\<close> is \<open>int\<close>, 0 is success; \<open>EIO\<close>, \<open>ENOMEM\<close> and \<open>EINVAL\<close> have the
    values of \<open>sys/errno.h\<close>.
  \<^item> The \<open>s64\<close> variables \<open>size\<close>, \<open>pos\<close> and \<open>ppos\<close> of the scanner are \<open>int\<close>:
    \<open>size\<close> is clamped to \<open>NtfsMaxLogFileSize\<close> and \<open>pos\<close> is at most doubled
    while below \<open>size\<close>, so they stay far inside 64 bits.
\<close>

subsection \<open>Types and constants\<close>

type_synonym u8 = "8 word"
type_synonym u16 = "16 word"
type_synonym u32 = "32 word"
type_synonym s64 = "64 word"
type_synonym LSN = "64 word"
type_synonym errno_t = int

definition EIO :: errno_t where "EIO = 5"
definition ENOMEM :: errno_t where "ENOMEM = 12"
definition EINVAL :: errno_t where "EINVAL = 22"

record ntfs_consts =
  NTFS_BLOCK_SIZE :: nat
  NTFS_BLOCK_SIZE_SHIFT :: nat
  PAGE_SIZE :: nat
  NtfsDefaultLogPageSize :: nat
  NtfsMaxLogFileSize :: nat
  NtfsMinLogRecordPages :: nat
  sizeof_RESTART_PAGE_HEADER :: nat
  offsetof_RESTART_AREA_file_size :: nat
  sizeof_LOG_CLIENT_RECORD :: nat
  magic_RSTR :: u32
  magic_CHKD :: u32
  magic_RCRD :: u32
  magic_empty :: u32
  LOGFILE_NO_CLIENT :: u16
  RESTART_VOLUME_IS_CLEAN :: u16

text \<open>The values of the driver's headers, used to run the model on concrete journals.\<close>

definition ntfs_k :: ntfs_consts where
  "ntfs_k = \<lparr> NTFS_BLOCK_SIZE = 512, NTFS_BLOCK_SIZE_SHIFT = 9, PAGE_SIZE = 4096,
     NtfsDefaultLogPageSize = 4096, NtfsMaxLogFileSize = 4294967296,
     NtfsMinLogRecordPages = 48, sizeof_RESTART_PAGE_HEADER = 30,
     offsetof_RESTART_AREA_file_size = 24, sizeof_LOG_CLIENT_RECORD = 160,
     magic_RSTR = 0x52545352, magic_CHKD = 0x444b4843, magic_RCRD = 0x44524352,
     magic_empty = 0xffffffff, LOGFILE_NO_CLIENT = 0xffff,
     RESTART_VOLUME_IS_CLEAN = 0x0002 \<rparr>"

definition PAGE_MASK :: "ntfs_consts \<Rightarrow> nat" where
  "PAGE_MASK K = PAGE_SIZE K - 1"

definition ntfs_is_rstr_record :: "ntfs_consts \<Rightarrow> u32 \<Rightarrow> bool" where
  "ntfs_is_rstr_record K m \<longleftrightarrow> m = magic_RSTR K"

definition ntfs_is_chkd_record :: "ntfs_consts \<Rightarrow> u32 \<Rightarrow> bool" where
  "ntfs_is_chkd_record K m \<longleftrightarrow> m = magic_CHKD K"

definition ntfs_is_rcrd_record :: "ntfs_consts \<Rightarrow> u32 \<Rightarrow> bool" where
  "ntfs_is_rcrd_record K m \<longleftrightarrow> m = magic_RCRD K"

definition ntfs_is_empty_record :: "ntfs_consts \<Rightarrow> u32 \<Rightarrow> bool" where
  "ntfs_is_empty_record K m \<longleftrightarrow> m = magic_empty K"

subsection \<open>The on-disk structures\<close>

record RESTART_PAGE_HEADER =
  magic :: u32
  usa_ofs :: u16
  usa_count :: u16
  chkdsk_lsn :: s64
  system_page_size :: u32
  log_page_size :: u32
  restart_area_offset :: u16
  minor_ver :: u16
  major_ver :: u16

record RESTART_AREA =
  current_lsn :: LSN
  log_clients :: u16
  client_free_list :: u16
  client_in_use_list :: u16
  flags :: u16
  seq_number_bits :: u32
  restart_area_length :: u16
  client_array_offset :: u16
  file_size :: s64
  log_record_header_length :: u16
  log_page_data_offset :: u16

record LOG_CLIENT_RECORD =
  prev_client :: u16
  next_client :: u16

text \<open>
  What the code reads through a \<open>RESTART_PAGE_HEADER *\<close>: the header \<open>rph\<close>, the restart
  area \<open>ra\<close> at \<open>(u8*)rp + restart_area_offset\<close>, and the client array \<open>ca\<close> at
  \<open>(u8*)ra + client_array_offset\<close>.
\<close>

record restart_page =
  rph :: RESTART_PAGE_HEADER
  ra :: RESTART_AREA
  ca :: "u16 \<Rightarrow> LOG_CLIENT_RECORD"

subsection \<open>The state of the volume and its collaborators\<close>

datatype io_event =
  PageMap int
  | AttrSet int int u8

text \<open>
  \<open>LogFileEmpty\<close> is the volume flag read by \<open>NVolLogFileEmpty\<close>, \<open>data_size\<close> is
  \<open>ni->data_size\<close>, \<open>heap\<close> holds the buffers obtained from \<open>IOMalloc\<close> and not yet
  given to \<open>IOFree\<close>, \<open>next_buf\<close> numbers the allocations, and \<open>io_log\<close> records, latest
  first, every call of \<open>ntfs_page_map\<close> and of \<open>ntfs_attr_set\<close> with its arguments.
\<close>

record ntfs_state =
  LogFileEmpty :: bool
  data_size :: int
  heap :: "nat \<Rightarrow> restart_page option"
  next_buf :: nat
  io_log :: "io_event list"

text \<open>
  The collaborators: the result of \<open>vnode_get\<close>, the result of \<open>ntfs_page_map\<close> at a
  position, the journal's bytes at a position seen as a restart page, the multi sector
  transfer deprotection of a buffer (whether it reports an error, and the buffer it
  leaves), whether the \<open>n\<close>-th \<open>IOMalloc\<close> succeeds, and the result of
  \<open>ntfs_attr_set\<close> for an offset, a count and a fill byte.
\<close>

record ntfs_env =
  vnode_get :: errno_t
  ntfs_page_map :: "int \<Rightarrow> errno_t"
  journal_at :: "int \<Rightarrow> restart_page"
  ntfs_mst_fixup_post_read :: "restart_page \<Rightarrow> u32 \<Rightarrow> bool \<times> restart_page"
  IOMalloc_ok :: "nat \<Rightarrow> bool"
  ntfs_attr_set :: "int \<Rightarrow> int \<Rightarrow> u8 \<Rightarrow> errno_t"

text \<open>
  Modelled from the spec: the volume-state macros of \<open>ntfs_volume.h\<close>, which is not in
  the source at hand; the spec's external interface "Volume state: exposes get/set of a
  persistent-for-the-mount journal-is-empty flag".
\<close>

definition NVolLogFileEmpty :: "ntfs_state \<Rightarrow> bool" where
  "NVolLogFileEmpty vol = LogFileEmpty vol"

definition NVolSetLogFileEmpty :: "ntfs_state \<Rightarrow> ntfs_state" where
  "NVolSetLogFileEmpty vol = vol\<lparr>LogFileEmpty := True\<rparr>"

text \<open>A call either returns a value or ends in \<open>panic()\<close>.\<close>

datatype 'a call = Panics | Returns 'a

subsection \<open>\<open>ntfs_logfile_is_clean\<close>\<close>

definition ntfs_logfile_is_clean ::
  "ntfs_consts \<Rightarrow> ntfs_state \<Rightarrow> restart_page option \<Rightarrow> bool call" where
  "ntfs_logfile_is_clean K vol rp =
     (if NVolLogFileEmpty vol then Returns True
      else case rp of
        None \<Rightarrow> Panics
      | Some p \<Rightarrow>
          if \<not> ntfs_is_rstr_record K (magic (rph p)) \<and>
             \<not> ntfs_is_chkd_record K (magic (rph p))
          then Returns False
          else if client_in_use_list (ra p) \<noteq> LOGFILE_NO_CLIENT K \<and>
                  flags (ra p) AND RESTART_VOLUME_IS_CLEAN K = 0
          then Returns False
          else Returns True)"

subsection \<open>\<open>ntfs_logfile_empty\<close>\<close>

definition ntfs_logfile_empty ::
  "ntfs_env \<Rightarrow> ntfs_state \<Rightarrow> errno_t \<times> ntfs_state" where
  "ntfs_logfile_empty env vol =
     (if \<not> NVolLogFileEmpty vol then
        (let err = vnode_get env in
         if err \<noteq> 0 then (err, vol)
         else
           let data_size = data_size vol;
               err = ntfs_attr_set env 0 data_size 0xff;
               vol = vol\<lparr>io_log := AttrSet 0 data_size 0xff # io_log vol\<rparr>
           in if err \<noteq> 0 then (err, vol)
              else (0, NVolSetLogFileEmpty vol))
      else (0, vol))"

subsection \<open>\<open>ntfs_restart_page_header_is_valid\<close>\<close>

text \<open>
  \<open>usa_count\<close> and \<open>usa_end\<close> are \<open>u16\<close> variables: the values assigned to them are
  truncated to 16 bits, which is what the arithmetic of \<open>16 word\<close> does.
\<close>

definition ntfs_restart_page_header_is_valid ::
  "ntfs_consts \<Rightarrow> restart_page \<Rightarrow> int \<Rightarrow> bool" where
  "ntfs_restart_page_header_is_valid K rp pos =
     (let h = rph rp;
          logfile_system_page_size = system_page_size h;
          logfile_log_page_size = log_page_size h
      in
      if unat logfile_system_page_size < NTFS_BLOCK_SIZE K \<or>
         unat logfile_log_page_size < NTFS_BLOCK_SIZE K \<or>
         logfile_system_page_size AND (logfile_system_page_size - 1) \<noteq> 0 \<or>
         logfile_log_page_size AND (logfile_log_page_size - 1) \<noteq> 0
      then False
      else if pos \<noteq> 0 \<and> pos \<noteq> uint logfile_system_page_size then False
      else if sint (major_ver h) \<noteq> 1 \<or> sint (minor_ver h) \<noteq> 1 then False
      else
        let have_usa = \<not> (ntfs_is_chkd_record K (magic h) \<and> usa_count h = 0);
            usa_count' = (ucast (1 + drop_bit (NTFS_BLOCK_SIZE_SHIFT K)
                            logfile_system_page_size) :: u16);
            usa_end = (if have_usa then usa_ofs h + usa_count' * 2 else 0)
        in
        if have_usa \<and> usa_count' \<noteq> usa_count h then False
        else if have_usa \<and>
                (unat (usa_ofs h) < sizeof_RESTART_PAGE_HEADER K \<or>
                 int (unat usa_end) > int (NTFS_BLOCK_SIZE K) - 2)
        then False
        else
          let ra_ofs = restart_area_offset h in
          if ra_ofs AND 7 \<noteq> 0 \<or>
             (if have_usa then ra_ofs < usa_end
              else unat ra_ofs < sizeof_RESTART_PAGE_HEADER K) \<or>
             unat ra_ofs > unat logfile_system_page_size
          then False
          else if \<not> ntfs_is_chkd_record K (magic h) \<and> chkdsk_lsn h \<noteq> 0 then False
          else True)"

subsection \<open>\<open>ntfs_restart_area_is_valid\<close>\<close>

text \<open>The loop \<open>while (file_size) { file_size >>= 1; fs_bits++; }\<close> on a \<open>u64\<close> and a \<open>u8\<close>.\<close>

function fs_bits_loop :: "64 word \<Rightarrow> u8 \<Rightarrow> u8" where
  "fs_bits_loop fsize fs_bits =
     (if fsize \<noteq> 0 then fs_bits_loop (drop_bit 1 fsize) (fs_bits + 1)
      else fs_bits)"
  by pat_completeness auto
termination
proof (relation "measure (\<lambda>(fsize, fs_bits). unat fsize)")
  show "wf (measure (\<lambda>(fsize :: 64 word, fs_bits :: u8). unat fsize))"
    by simp
next
  fix fsize :: "64 word" and fs_bits :: u8
  assume nz: "fsize \<noteq> 0"
  then have "0 < unat fsize"
    by (simp add: unat_gt_0)
  then have "unat fsize div 2 < unat fsize"
    by simp
  then show "((drop_bit 1 fsize, fs_bits + 1), (fsize, fs_bits))
      \<in> measure (\<lambda>(fsize, fs_bits). unat fsize)"
    by (simp add: unat_drop_bit_eq drop_bit_eq_div unat_div)
qed

declare fs_bits_loop.simps [simp del]

text \<open>
  The comparison \<open>le32_to_cpu(ra->seq_number_bits) != (unsigned)(67 - fs_bits)\<close>:
  \<open>fs_bits\<close> is promoted to \<open>int\<close>, and the difference is converted to 32 bits.
\<close>

definition seq_number_bits_consistent :: "RESTART_AREA \<Rightarrow> bool" where
  "seq_number_bits_consistent a \<longleftrightarrow>
     \<not> (seq_number_bits a \<noteq>
          (word_of_int (67 - uint (fs_bits_loop (file_size a) 0)) :: u32))"

definition ntfs_restart_area_is_valid :: "ntfs_consts \<Rightarrow> restart_page \<Rightarrow> bool" where
  "ntfs_restart_area_is_valid K rp =
     (let ra_ofs = restart_area_offset (rph rp);
          a = ra rp
      in
      if int (unat ra_ofs) + int (offsetof_RESTART_AREA_file_size K)
           > int (NTFS_BLOCK_SIZE K) - 2
      then False
      else
        let ca_ofs = client_array_offset a in
        if (uint ca_ofs + 7) AND NOT 7 \<noteq> uint ca_ofs \<or>
           int (unat ra_ofs) + int (unat ca_ofs) > int (NTFS_BLOCK_SIZE K) - 2
        then False
        else
          let ra_len = (word_of_nat (unat ca_ofs +
                          unat (log_clients a) * sizeof_LOG_CLIENT_RECORD K) :: u16)
          in
          if unat ra_ofs + unat ra_len > unat (system_page_size (rph rp)) \<or>
             unat ra_ofs + unat (restart_area_length a)
               > unat (system_page_size (rph rp)) \<or>
             ra_len > restart_area_length a
          then False
          else if (client_free_list a \<noteq> LOGFILE_NO_CLIENT K \<and>
                   client_free_list a \<ge> log_clients a) \<or>
                  (client_in_use_list a \<noteq> LOGFILE_NO_CLIENT K \<and>
                   client_in_use_list a \<ge> log_clients a)
          then False
          else if \<not> seq_number_bits_consistent a then False
          else if (uint (log_record_header_length a) + 7) AND NOT 7
                    \<noteq> uint (log_record_header_length a)
          then False
          else if (uint (log_page_data_offset a) + 7) AND NOT 7
                    \<noteq> uint (log_page_data_offset a)
          then False
          else True)"

subsection \<open>\<open>ntfs_log_client_array_is_consistent\<close>\<close>

text \<open>
  The \<open>for\<close> loop under the label \<open>check_list\<close>. \<open>None\<close> is \<open>goto err\<close>; \<open>Some n\<close> is the
  loop's normal end, with \<open>n\<close> the value \<open>nr_clients\<close> has then.
\<close>

function check_list ::
  "ntfs_consts \<Rightarrow> restart_page \<Rightarrow> u16 \<Rightarrow> u16 \<Rightarrow> bool \<Rightarrow> u16 option" where
  "check_list K rp nr_clients idx idx_is_first =
     (if idx \<noteq> LOGFILE_NO_CLIENT K then
        if nr_clients = 0 \<or> idx \<ge> log_clients (ra rp) then None
        else
          let cr = ca rp idx in
          if idx_is_first \<and> prev_client cr \<noteq> LOGFILE_NO_CLIENT K then None
          else check_list K rp (nr_clients - 1) (next_client cr) False
      else Some nr_clients)"
  by pat_completeness auto
termination
proof (relation "measure (\<lambda>(K, rp, nr_clients, idx, idx_is_first). unat nr_clients)")
  show "wf (measure (\<lambda>(K :: ntfs_consts, rp :: restart_page, nr_clients :: u16,
      idx :: u16, idx_is_first :: bool). unat nr_clients))"
    by simp
next
  fix K :: ntfs_consts and rp :: restart_page and nr_clients idx :: u16
    and idx_is_first :: bool and x :: LOG_CLIENT_RECORD
  assume "\<not> (nr_clients = 0 \<or> log_clients (ra rp) \<le> idx)"
  then have "nr_clients \<noteq> 0"
    by simp
  then have "unat (nr_clients - 1) < unat nr_clients"
    by (simp add: unat_minus_one unat_gt_0)
  then show "((K, rp, nr_clients - 1, next_client x, False),
      (K, rp, nr_clients, idx, idx_is_first))
      \<in> measure (\<lambda>(K, rp, nr_clients, idx, idx_is_first). unat nr_clients)"
    by simp
qed

declare check_list.simps [simp del]

text \<open>
  \<open>nr_clients\<close> is set once, before the label \<open>check_list\<close>; the jump back to the label
  for the in-use list changes \<open>idx\<close> and \<open>in_free_list\<close> only.
\<close>

definition ntfs_log_client_array_is_consistent ::
  "ntfs_consts \<Rightarrow> restart_page \<Rightarrow> bool" where
  "ntfs_log_client_array_is_consistent K rp =
     (let nr_clients = log_clients (ra rp);
          idx = client_free_list (ra rp)
      in case check_list K rp nr_clients idx True of
           None \<Rightarrow> False
         | Some nr_clients \<Rightarrow>
             (let idx = client_in_use_list (ra rp)
              in case check_list K rp nr_clients idx True of
                   None \<Rightarrow> False
                 | Some nr_clients \<Rightarrow> True))"

subsection \<open>\<open>ntfs_restart_page_load\<close>\<close>

text \<open>
  \<open>IOMalloc\<close> returns a fresh buffer or \<open>NULL\<close> (\<open>None\<close>); \<open>IOFree\<close> gives a buffer
  back. A buffer is named by the number of the allocation that made it.
\<close>

definition IOMalloc :: "ntfs_env \<Rightarrow> ntfs_state \<Rightarrow> nat option \<times> ntfs_state" where
  "IOMalloc env vol =
     (if IOMalloc_ok env (next_buf vol)
      then (Some (next_buf vol), vol\<lparr>next_buf := Suc (next_buf vol)\<rparr>)
      else (None, vol\<lparr>next_buf := Suc (next_buf vol)\<rparr>))"

definition IOFree :: "nat \<Rightarrow> ntfs_state \<Rightarrow> ntfs_state" where
  "IOFree p vol = vol\<lparr>heap := (heap vol)(p := None)\<rparr>"

text \<open>
  The \<open>do ... while (to_read > 0)\<close> loop that maps the pages after the first one.
  The loop does not end if \<open>PAGE_SIZE\<close> is 0, so it is a partial function: \<open>None\<close> is a
  run that never returns. \<open>(unsigned)pos\<close> keeps the low 32 bits of \<open>pos\<close>.
\<close>

partial_function (option) read_remaining ::
  "ntfs_consts \<Rightarrow> ntfs_env \<Rightarrow> ntfs_state \<Rightarrow> int \<Rightarrow> nat \<Rightarrow> nat
    \<Rightarrow> (errno_t \<times> ntfs_state) call option" where
  "read_remaining K env vol pos size' to_read =
     (let pos = pos + int size' in
      if take_bit 32 pos AND int (PAGE_MASK K) \<noteq> 0 then Some Panics
      else
        let err = ntfs_page_map env pos;
            vol = vol\<lparr>io_log := PageMap pos # io_log vol\<rparr>
        in if err \<noteq> 0
           then Some (Returns ((if err \<noteq> EIO \<and> err \<noteq> ENOMEM then EIO else err), vol))
           else
             let size' = (if PAGE_SIZE K > to_read then to_read else PAGE_SIZE K);
                 to_read = to_read - size'
             in if to_read > 0 then read_remaining K env vol pos size' to_read
                else Some (Returns (0, vol)))"

text \<open>
  "Read the whole of the restart page into the buffer": the copy from \<open>rp\<close> when the
  page lies in what is mapped, the loop above otherwise. The result is the error of the
  read (0 when all of it is read).
\<close>

definition restart_page_read ::
  "ntfs_consts \<Rightarrow> ntfs_env \<Rightarrow> ntfs_state \<Rightarrow> restart_page \<Rightarrow> int
    \<Rightarrow> (errno_t \<times> ntfs_state) call option" where
  "restart_page_read K env vol rp pos =
     (let size' = PAGE_SIZE K - nat (take_bit 32 pos AND int (PAGE_MASK K)) in
      if size' \<ge> unat (system_page_size (rph rp)) then Some (Returns (0, vol))
      else read_remaining K env vol pos size' (unat (system_page_size (rph rp)) - size'))"

text \<open>
  "Perform the multi sector transfer deprotection on the buffer if the restart page is
  protected": the error it reports, and the buffer afterwards. \<open>trp\<close> holds a copy of
  \<open>rp\<close>, so its \<open>magic\<close> and \<open>usa_count\<close> are those of \<open>rp\<close>.
\<close>

definition restart_page_deprotect ::
  "ntfs_consts \<Rightarrow> ntfs_env \<Rightarrow> restart_page \<Rightarrow> bool \<times> restart_page" where
  "restart_page_deprotect K env rp =
     (if \<not> ntfs_is_chkd_record K (magic (rph rp)) \<or> usa_count (rph rp) \<noteq> 0
      then ntfs_mst_fixup_post_read env rp (system_page_size (rph rp))
      else (False, rp))"

text \<open>
  The rest of the loader, from the deprotection on, for the buffer \<open>trp\<close>. The loader is
  modelled as its one caller uses it: \<open>wrp\<close> and \<open>lsn\<close> are never \<open>NULL\<close> there, so on
  success the buffer and the LSN are both handed out, and on failure neither is.
\<close>

definition restart_page_finish ::
  "ntfs_consts \<Rightarrow> ntfs_env \<Rightarrow> ntfs_state \<Rightarrow> restart_page \<Rightarrow> nat
    \<Rightarrow> errno_t \<times> ntfs_state \<times> (nat \<times> LSN) option" where
  "restart_page_finish K env vol rp trp =
     (let mst_error = fst (restart_page_deprotect K env rp);
          buf = snd (restart_page_deprotect K env rp);
          vol = vol\<lparr>heap := (heap vol)(trp \<mapsto> buf)\<rparr>
      in
      if mst_error \<and>
         int (unat (restart_area_offset (rph rp))) +
           int (unat (restart_area_length (ra rp)))
           > int (NTFS_BLOCK_SIZE K) - 2
      then (EINVAL, IOFree trp vol, None)
      else if ntfs_is_rstr_record K (magic (rph rp)) \<and>
              client_in_use_list (ra rp) \<noteq> LOGFILE_NO_CLIENT K \<and>
              \<not> ntfs_log_client_array_is_consistent K buf
      then (EINVAL, IOFree trp vol, None)
      else
        let lsn = (if ntfs_is_rstr_record K (magic (rph rp))
                   then current_lsn (ra rp) else chkdsk_lsn (rph rp))
        in (0, vol, Some (trp, lsn)))"

text \<open>
  \<open>rp\<close> is the journal seen at \<open>pos\<close>; the buffer \<open>*trp\<close> holds a copy of it from the
  first \<open>memcpy\<close> on.
\<close>

definition ntfs_restart_page_load ::
  "ntfs_consts \<Rightarrow> ntfs_env \<Rightarrow> ntfs_state \<Rightarrow> restart_page \<Rightarrow> int
    \<Rightarrow> (errno_t \<times> ntfs_state \<times> (nat \<times> LSN) option) call option" where
  "ntfs_restart_page_load K env vol rp pos =
     (if \<not> ntfs_restart_page_header_is_valid K rp pos then Some (Returns (EINVAL, vol, None))
      else if \<not> ntfs_restart_area_is_valid K rp then Some (Returns (EINVAL, vol, None))
      else
        case fst (IOMalloc env vol) of
          None \<Rightarrow> Some (Returns (ENOMEM, snd (IOMalloc env vol), None))
        | Some trp \<Rightarrow>
            (case restart_page_read K env
                    ((snd (IOMalloc env vol))\<lparr>heap := (heap vol)(trp \<mapsto> rp)\<rparr>) rp pos of
               None \<Rightarrow> None
             | Some Panics \<Rightarrow> Some Panics
             | Some (Returns r) \<Rightarrow>
                 if fst r \<noteq> 0 then Some (Returns (fst r, IOFree trp (snd r), None))
                 else Some (Returns (restart_page_finish K env (snd r) rp trp))))"

subsection \<open>\<open>ntfs_logfile_check\<close>\<close>

text \<open>\<open>ffs\<close>: one plus the index of the least significant set bit, 0 for 0.\<close>

fun ffs :: "nat \<Rightarrow> nat" where
  "ffs x = (if x = 0 then 0 else if odd x then 1 else Suc (ffs (x div 2)))"

declare ffs.simps [simp del]

text \<open>
  The variables of the loop \<open>for (pos = ppos = 0; pos < size; pos <<= 1)\<close>. \<open>upl\<close>
  tells whether a page is mapped (\<open>upl != NULL\<close>); \<open>rstr1\<close> and \<open>rstr2\<close> pair each
  \<open>rstrN_ph\<close> with its \<open>rstrN_lsn\<close> (\<open>None\<close> is \<open>NULL\<close>), which the loader sets
  together. The body of the loop is left by \<open>continue\<close> (or by reaching its end), by
  \<open>break\<close>, or by \<open>goto err\<close>.
\<close>

record scan_vars =
  pos :: int
  ppos :: int
  upl :: bool
  logfile_is_empty :: bool
  rstr1 :: "(nat \<times> LSN) option"
  rstr2 :: "(nat \<times> LSN) option"

datatype loop_exit = Continue | Break | Goto_err errno_t

text \<open>\<open>if (!pos) pos = NTFS_BLOCK_SIZE / 2;\<close>, which precedes every \<open>continue\<close>.\<close>

definition next_slot :: "ntfs_consts \<Rightarrow> scan_vars \<Rightarrow> scan_vars" where
  "next_slot K v = (if pos v = 0 then v\<lparr>pos := int (NTFS_BLOCK_SIZE K div 2)\<rparr> else v)"

text \<open>
  What the body does with the result of \<open>ntfs_restart_page_load\<close>: the loader has
  written to \<open>rstr1\<close> if that was \<open>NULL\<close> and to \<open>rstr2\<close> otherwise.
\<close>

definition scan_loaded ::
  "ntfs_consts \<Rightarrow> scan_vars \<Rightarrow> errno_t \<times> ntfs_state \<times> (nat \<times> LSN) option
    \<Rightarrow> loop_exit \<times> scan_vars \<times> ntfs_state" where
  "scan_loaded K v l =
     (let err = fst l; vol = fst (snd l) in
      if err = 0 then
        let v = (if rstr1 v = None then v\<lparr>rstr1 := snd (snd l)\<rparr>
                 else v\<lparr>rstr2 := snd (snd l)\<rparr>)
        in if pos v = 0 then (Continue, next_slot K v, vol) else (Break, v, vol)
      else if err \<noteq> EINVAL then (Goto_err err, v, vol)
      else (Continue, next_slot K v, vol))"

text \<open>One run of the body of the loop. \<open>kaddr\<close> is the journal as seen at \<open>pos\<close>.\<close>

definition scan_body ::
  "ntfs_consts \<Rightarrow> ntfs_env \<Rightarrow> scan_vars \<Rightarrow> ntfs_state
    \<Rightarrow> (loop_exit \<times> scan_vars \<times> ntfs_state) call option" where
  "scan_body K env v vol =
     (let remap = (\<not> upl v \<or> pos v AND NOT (int (PAGE_MASK K)) \<noteq> ppos v);
          err = (if remap then ntfs_page_map env (pos v) else 0);
          vol = (if remap then vol\<lparr>io_log := PageMap (pos v) # io_log vol\<rparr> else vol);
          v = (if remap then v\<lparr>ppos := pos v, upl := True\<rparr> else v);
          kaddr = journal_at env (pos v)
      in
      if err \<noteq> 0
      then Some (Returns (Goto_err (if err \<noteq> EIO \<and> err \<noteq> ENOMEM then EIO else err),
                   v, vol))
      else if ntfs_is_empty_record K (magic (rph kaddr)) then
        if logfile_is_empty v then Some (Returns (Continue, next_slot K v, vol))
        else Some (Returns (Break, v, vol))
      else if ntfs_is_rcrd_record K (magic (rph kaddr))
      then Some (Returns (Break, v\<lparr>logfile_is_empty := False\<rparr>, vol))
      else if \<not> ntfs_is_rstr_record K (magic (rph kaddr)) \<and>
              \<not> ntfs_is_chkd_record K (magic (rph kaddr))
      then Some (Returns (Continue, next_slot K (v\<lparr>logfile_is_empty := False\<rparr>), vol))
      else
        case ntfs_restart_page_load K env vol kaddr (pos v) of
          None \<Rightarrow> None
        | Some Panics \<Rightarrow> Some Panics
        | Some (Returns l) \<Rightarrow>
            Some (Returns (scan_loaded K (v\<lparr>logfile_is_empty := False\<rparr>) l)))"

text \<open>
  The loop: the test \<open>pos < size\<close>, the body, and after a \<open>continue\<close> the step
  \<open>pos <<= 1\<close>. It is left as by a \<open>break\<close> when the test fails. The loop does not end
  when \<open>NTFS_BLOCK_SIZE / 2\<close> is 0, so it is a partial function.
\<close>

partial_function (option) scan_loop ::
  "ntfs_consts \<Rightarrow> ntfs_env \<Rightarrow> int \<Rightarrow> scan_vars \<Rightarrow> ntfs_state
    \<Rightarrow> (loop_exit \<times> scan_vars \<times> ntfs_state) call option" where
  "scan_loop K env size' v vol =
     (if \<not> pos v < size' then Some (Returns (Break, v, vol))
      else
        case scan_body K env v vol of
          None \<Rightarrow> None
        | Some Panics \<Rightarrow> Some Panics
        | Some (Returns r) \<Rightarrow>
            if fst r = Continue
            then scan_loop K env size' ((fst (snd r))\<lparr>pos := 2 * pos (fst (snd r))\<rparr>)
                   (snd (snd r))
            else Some (Returns r))"

text \<open>
  The effective log page size, and \<open>size\<close> after the clamp to \<open>NtfsMaxLogFileSize\<close> and
  the truncation \<open>size &= ~(s64)(log_page_size - 1)\<close>; \<open>log_page_size\<close> is \<open>unsigned\<close>,
  so \<open>log_page_size - 1\<close> is taken modulo \<open>2 ^ 32\<close>.
\<close>

definition log_page_size_of :: "ntfs_consts \<Rightarrow> nat" where
  "log_page_size_of K =
     (if PAGE_SIZE K \<ge> NtfsDefaultLogPageSize K \<and>
         PAGE_SIZE K \<le> NtfsDefaultLogPageSize K * 2
      then NtfsDefaultLogPageSize K else PAGE_SIZE K)"

definition usable_size :: "ntfs_consts \<Rightarrow> ntfs_state \<Rightarrow> int" where
  "usable_size K vol =
     (let size' = data_size vol;
          size' = (if size' > int (NtfsMaxLogFileSize K)
                   then int (NtfsMaxLogFileSize K) else size')
      in size' AND NOT ((int (log_page_size_of K) - 1) mod 2 ^ 32))"

text \<open>
  The test "the log file is too small": \<open>size < log_page_size * 2 ||
  (size - log_page_size * 2) >> log_page_bits < NtfsMinLogRecordPages\<close>, with
  \<open>log_page_bits = ffs(log_page_size) - 1\<close> stored in a \<open>u8\<close>.
\<close>

definition logfile_too_small :: "ntfs_consts \<Rightarrow> int \<Rightarrow> bool" where
  "logfile_too_small K size' \<longleftrightarrow>
     (let log_page_size = log_page_size_of K;
          log_page_bits = nat ((int (ffs log_page_size) - 1) mod 256)
      in size' < int (log_page_size * 2) \<or>
         drop_bit log_page_bits (size' - int (log_page_size * 2))
           < int (NtfsMinLogRecordPages K))"

text \<open>
  "If both restart pages were found, use the more recent one": the page kept and the
  state after the other one is freed. \<open>LSN\<close> is signed.
\<close>

definition keep_more_recent ::
  "nat \<times> LSN \<Rightarrow> (nat \<times> LSN) option \<Rightarrow> ntfs_state \<Rightarrow> nat \<times> ntfs_state" where
  "keep_more_recent r1 r2 vol =
     (case r2 of
        None \<Rightarrow> (fst r1, vol)
      | Some r2 \<Rightarrow>
          if sint (snd r2) > sint (snd r1) then (fst r2, IOFree (fst r1) vol)
          else (fst r1, IOFree (fst r2) vol))"

text \<open>
  What follows the loop. \<open>rp_given\<close> tells whether the out-parameter \<open>rp\<close> is not
  \<open>NULL\<close>; the second component of the result is the value left in \<open>*rp\<close> (\<open>None\<close> is
  \<open>NULL\<close>). The locks, \<open>ntfs_page_unmap\<close> and \<open>vnode_put\<close> have no effect on the state
  modelled here.
\<close>

definition logfile_check_finish ::
  "bool \<Rightarrow> loop_exit \<Rightarrow> scan_vars \<Rightarrow> ntfs_state
    \<Rightarrow> (errno_t \<times> nat option \<times> ntfs_state) call" where
  "logfile_check_finish rp_given ex v vol =
     (case ex of
        Goto_err err \<Rightarrow>
          (case rstr1 v of
             None \<Rightarrow> Returns (err, None, vol)
           | Some r1 \<Rightarrow> Returns (err, None, IOFree (fst r1) vol))
      | _ \<Rightarrow>
          if logfile_is_empty v then Returns (0, None, NVolSetLogFileEmpty vol)
          else
            (case rstr1 v of
               None \<Rightarrow>
                 if rstr2 v \<noteq> None then Panics else Returns (EINVAL, None, vol)
             | Some r1 \<Rightarrow>
                 if rp_given
                 then Returns (0, Some (fst (keep_more_recent r1 (rstr2 v) vol)),
                        snd (keep_more_recent r1 (rstr2 v) vol))
                 else Returns (0, None,
                        IOFree (fst (keep_more_recent r1 (rstr2 v) vol))
                          (snd (keep_more_recent r1 (rstr2 v) vol)))))"

definition ntfs_logfile_check ::
  "ntfs_consts \<Rightarrow> ntfs_env \<Rightarrow> ntfs_state \<Rightarrow> bool
    \<Rightarrow> (errno_t \<times> nat option \<times> ntfs_state) call option" where
  "ntfs_logfile_check K env vol rp_given =
     (if NVolLogFileEmpty vol then Some (Returns (0, None, vol))
      else if vnode_get env \<noteq> 0
      then Some (Returns ((if vnode_get env = EINVAL then EIO else vnode_get env), None, vol))
      else if logfile_too_small K (usable_size K vol)
      then Some (Returns (EINVAL, None, vol))
      else
        case scan_loop K env (usable_size K vol)
               \<lparr>pos = 0, ppos = 0, upl = False, logfile_is_empty = True,
                rstr1 = None, rstr2 = None\<rparr> vol of
          None \<Rightarrow> None
        | Some Panics \<Rightarrow> Some Panics
        | Some (Returns r) \<Rightarrow>
            Some (logfile_check_finish rp_given (fst r) (fst (snd r)) (snd (snd r))))"

subsection \<open>Notions used to state the properties\<close>

text \<open>
  A client list that starts at \<open>idx\<close> and visits exactly the indices \<open>xs\<close>: each index
  is a client below \<open>log_clients\<close>, each record's \<open>next_client\<close> is the next index, and
  the last record's \<open>next_client\<close> is the sentinel. It is well formed when, in addition,
  its first record has no predecessor.
\<close>

fun client_chain :: "ntfs_consts \<Rightarrow> restart_page \<Rightarrow> u16 \<Rightarrow> u16 list \<Rightarrow> bool" where
  "client_chain K rp idx [] \<longleftrightarrow> idx = LOGFILE_NO_CLIENT K"
| "client_chain K rp idx (i # is) \<longleftrightarrow>
     idx = i \<and> i \<noteq> LOGFILE_NO_CLIENT K \<and> i < log_clients (ra rp) \<and>
     client_chain K rp (next_client (ca rp i)) is"

definition well_formed_list ::
  "ntfs_consts \<Rightarrow> restart_page \<Rightarrow> u16 \<Rightarrow> u16 list \<Rightarrow> bool" where
  "well_formed_list K rp head xs \<longleftrightarrow>
     client_chain K rp head xs \<and>
     (case xs of [] \<Rightarrow> True | i # is \<Rightarrow> prev_client (ca rp i) = LOGFILE_NO_CLIENT K)"

text \<open>
  The stretch \<open>xs\<close> of a client list from \<open>idx\<close> on, with no condition on where it
  goes after its last node.
\<close>

fun client_path :: "ntfs_consts \<Rightarrow> restart_page \<Rightarrow> u16 \<Rightarrow> u16 list \<Rightarrow> bool" where
  "client_path K rp idx [] \<longleftrightarrow> True"
| "client_path K rp idx (i # is) \<longleftrightarrow>
     idx = i \<and> i \<noteq> LOGFILE_NO_CLIENT K \<and> client_path K rp (next_client (ca rp i)) is"

text \<open>
  The validator as the specification words it: the in-use list is traversed "with a
  fresh budget", that is, \<open>nr_clients\<close> is set to \<open>log_clients\<close> again before the second
  list. It is compared with the validator of the source below.
\<close>

definition fresh_budget_client_array_is_consistent ::
  "ntfs_consts \<Rightarrow> restart_page \<Rightarrow> bool" where
  "fresh_budget_client_array_is_consistent K rp =
     (case check_list K rp (log_clients (ra rp)) (client_free_list (ra rp)) True of
        None \<Rightarrow> False
      | Some nr_clients \<Rightarrow>
          (case check_list K rp (log_clients (ra rp)) (client_in_use_list (ra rp)) True of
             None \<Rightarrow> False
           | Some nr_clients \<Rightarrow> True))"

text \<open>
  The records visited by the loop under \<open>check_list\<close>: the indices at which
  \<open>cr = ca + idx\<close> is executed, in order; and those visited by the whole validator.
\<close>

function check_list_visits ::
  "ntfs_consts \<Rightarrow> restart_page \<Rightarrow> u16 \<Rightarrow> u16 \<Rightarrow> bool \<Rightarrow> u16 list" where
  "check_list_visits K rp nr_clients idx idx_is_first =
     (if idx \<noteq> LOGFILE_NO_CLIENT K then
        if nr_clients = 0 \<or> idx \<ge> log_clients (ra rp) then []
        else
          let cr = ca rp idx in
          if idx_is_first \<and> prev_client cr \<noteq> LOGFILE_NO_CLIENT K then [idx]
          else idx # check_list_visits K rp (nr_clients - 1) (next_client cr) False
      else [])"
  by pat_completeness auto
termination
proof (relation "measure (\<lambda>(K, rp, nr_clients, idx, idx_is_first). unat nr_clients)")
  show "wf (measure (\<lambda>(K :: ntfs_consts, rp :: restart_page, nr_clients :: u16,
      idx :: u16, idx_is_first :: bool). unat nr_clients))"
    by simp
next
  fix K :: ntfs_consts and rp :: restart_page and nr_clients idx :: u16
    and idx_is_first :: bool and x :: LOG_CLIENT_RECORD
  assume "\<not> (nr_clients = 0 \<or> log_clients (ra rp) \<le> idx)"
  then have "nr_clients \<noteq> 0"
    by simp
  then have "unat (nr_clients - 1) < unat nr_clients"
    by (simp add: unat_minus_one unat_gt_0)
  then show "((K, rp, nr_clients - 1, next_client x, False),
      (K, rp, nr_clients, idx, idx_is_first))
      \<in> measure (\<lambda>(K, rp, nr_clients, idx, idx_is_first). unat nr_clients)"
    by simp
qed

declare check_list_visits.simps [simp del]

definition client_array_visits :: "ntfs_consts \<Rightarrow> restart_page \<Rightarrow> u16 list" where
  "client_array_visits K rp =
     check_list_visits K rp (log_clients (ra rp)) (client_free_list (ra rp)) True @
     (case check_list K rp (log_clients (ra rp)) (client_free_list (ra rp)) True of
        None \<Rightarrow> []
      | Some nr_clients \<Rightarrow>
          check_list_visits K rp nr_clients (client_in_use_list (ra rp)) True)"

text \<open>
  The value \<open>nr_clients\<close> has when the traversal of the in-use list starts: what the
  traversal of the free list has left of the budget \<open>log_clients\<close>; \<open>None\<close> when the
  free list fails.
\<close>

definition in_use_list_budget :: "ntfs_consts \<Rightarrow> restart_page \<Rightarrow> u16 option" where
  "in_use_list_budget K rp =
     check_list K rp (log_clients (ra rp)) (client_free_list (ra rp)) True"

text \<open>
  What holds of the scanner's variables throughout the loop: a restart page that was
  found is an allocated buffer, two pages found are two buffers, the second is only
  found after the first, and once a page is found the journal is not taken for empty.
\<close>

definition scan_inv :: "scan_vars \<Rightarrow> ntfs_state \<Rightarrow> bool" where
  "scan_inv v vol \<longleftrightarrow>
     (case rstr1 v of
        None \<Rightarrow> rstr2 v = None
      | Some r1 \<Rightarrow>
          \<not> logfile_is_empty v \<and> fst r1 < next_buf vol \<and> heap vol (fst r1) \<noteq> None \<and>
          (case rstr2 v of
             None \<Rightarrow> True
           | Some r2 \<Rightarrow>
               fst r2 < next_buf vol \<and> heap vol (fst r2) \<noteq> None \<and> fst r1 \<noteq> fst r2))"

subsection \<open>Concrete journals\<close>

text \<open>
  A restart page as a freshly formatted 4 MiB journal has it, with one client in use and
  the clean bit unset, and a volume whose journal is not marked empty.
\<close>

definition ex_page :: restart_page where
  "ex_page = \<lparr> rph = \<lparr> magic = 0x52545352, usa_ofs = 30, usa_count = 9, chkdsk_lsn = 0,
       system_page_size = 4096, log_page_size = 4096, restart_area_offset = 48,
       minor_ver = 1, major_ver = 1 \<rparr>,
     ra = \<lparr> current_lsn = 100, log_clients = 1, client_free_list = 0xffff,
       client_in_use_list = 0, flags = 0, seq_number_bits = 44,
       restart_area_length = 224, client_array_offset = 64, file_size = 4194304,
       log_record_header_length = 48, log_page_data_offset = 64 \<rparr>,
     ca = (\<lambda>i. \<lparr> prev_client = 0xffff, next_client = 0xffff \<rparr>) \<rparr>"

definition ex_vol :: ntfs_state where
  "ex_vol = \<lparr> LogFileEmpty = False, data_size = 4194304, heap = (\<lambda>p. None),
     next_buf = 0, io_log = [] \<rparr>"

text \<open>
  Three client arrays over the page above. \<open>ex_lists\<close> has three clients, the free
  list 2 and the in-use list 0, 1. \<open>ex_shared\<close> has one client which is the head of both
  lists. \<open>ex_cycle\<close> has the in-use list 0, 1, 2 whose last node points back to 1.
\<close>

definition ex_lists :: restart_page where
  "ex_lists = ex_page\<lparr> ra := (ra ex_page)\<lparr> log_clients := 3, client_free_list := 2,
       client_in_use_list := 0, restart_area_length := 544 \<rparr>,
     ca := (\<lambda>i. if i = 0 then \<lparr> prev_client = 0xffff, next_client = 1 \<rparr>
                else if i = 1 then \<lparr> prev_client = 0, next_client = 0xffff \<rparr>
                else \<lparr> prev_client = 0xffff, next_client = 0xffff \<rparr>) \<rparr>"

definition ex_shared :: restart_page where
  "ex_shared = ex_page\<lparr> ra := (ra ex_page)\<lparr> client_free_list := 0 \<rparr> \<rparr>"

definition ex_cycle :: restart_page where
  "ex_cycle = ex_page\<lparr> ra := (ra ex_page)\<lparr> log_clients := 3, restart_area_length := 544 \<rparr>,
     ca := (\<lambda>i. if i = 0 then \<lparr> prev_client = 0xffff, next_client = 1 \<rparr>
                else if i = 1 then \<lparr> prev_client = 0, next_client = 2 \<rparr>
                else \<lparr> prev_client = 1, next_client = 1 \<rparr>) \<rparr>"

text \<open>
  A journal with the two restart pages at 0 and at the system page size (4096), with
  LSNs 100 and 105; what lies between them is neither empty nor a record page nor a
  restart page. Every collaborator succeeds and the deprotection changes nothing.
  \<open>ex_env_novnode\<close> is the same with a \<open>vnode_get\<close> that fails with \<open>ENOENT\<close>, and
  \<open>ex_env_rcrd\<close> is a journal that starts with a log record page.
\<close>

definition ex_page2 :: restart_page where
  "ex_page2 = ex_page\<lparr> ra := (ra ex_page)\<lparr> current_lsn := 105 \<rparr> \<rparr>"

definition ex_filler :: restart_page where
  "ex_filler = ex_page\<lparr> rph := (rph ex_page)\<lparr> magic := 0 \<rparr> \<rparr>"

definition ex_env :: ntfs_env where
  "ex_env = \<lparr> vnode_get = 0, ntfs_page_map = (\<lambda>p. 0),
     journal_at = (\<lambda>p. if p = 0 then ex_page else if p = 4096 then ex_page2
                          else ex_filler),
     ntfs_mst_fixup_post_read = (\<lambda>buf n. (False, buf)), IOMalloc_ok = (\<lambda>n. True),
     ntfs_attr_set = (\<lambda>ofs cnt val. 0) \<rparr>"

definition ex_env_novnode :: ntfs_env where
  "ex_env_novnode = ex_env\<lparr> vnode_get := 2 \<rparr>"


text \<open>
  The states these journals are left in: \<open>ex_scanned\<close> after the scan of the journal
  with two restart pages, \<open>ex_wiped\<close> after \<open>ntfs_logfile_empty\<close>, \<open>ex_blank_scanned\<close>
  after the scan of a journal of 50 pages that holds nothing but empty records
  (\<open>ex_env_blank\<close>, \<open>ex_vol_min\<close>). \<open>ex_small\<close> is a journal of 16 pages.
\<close>

definition ex_scanned :: ntfs_state where
  "ex_scanned = \<lparr> LogFileEmpty = False, data_size = 4194304,
     heap = (\<lambda>p. None)(0 \<mapsto> ex_page, 1 \<mapsto> ex_page2), next_buf = 2,
     io_log = [PageMap 4096, PageMap 0] \<rparr>"

definition ex_small :: ntfs_state where
  "ex_small = ex_vol\<lparr> data_size := 65536 \<rparr>"

definition ex_env_blank :: ntfs_env where
  "ex_env_blank = ex_env\<lparr> journal_at :=
     (\<lambda>p. ex_page\<lparr> rph := (rph ex_page)\<lparr> magic := 0xffffffff \<rparr> \<rparr>) \<rparr>"

definition ex_vol_min :: ntfs_state where
  "ex_vol_min = ex_vol\<lparr> data_size := 204800 \<rparr>"

definition ex_wiped :: ntfs_state where
  "ex_wiped = ex_vol\<lparr> LogFileEmpty := True, io_log := [AttrSet 0 4194304 0xff] \<rparr>"

definition ex_blank_scanned :: ntfs_state where
  "ex_blank_scanned = \<lparr> LogFileEmpty = False, data_size = 204800, heap = (\<lambda>p. None),
     next_buf = 0,
     io_log = [PageMap 131072, PageMap 65536, PageMap 32768, PageMap 16384, PageMap 8192,
       PageMap 4096, PageMap 0] \<rparr>"

section \<open>Properties\<close>

subsection \<open>The clean-shutdown decision\<close>

text \<open>
  C1. \<open>ntfs_logfile_is_clean\<close> returns clean whenever the journal is marked empty,
  whatever restart page it is given. For a journal not marked empty and a restart page
  that carries the restart or the chkdsk magic, it returns dirty exactly when the
  in-use client list head is not the no-client sentinel and the clean-volume bit of the
  restart area's flags is not set, and clean in every other case.
\<close>

theorem is_clean_classification:
  "(NVolLogFileEmpty vol \<longrightarrow> ntfs_logfile_is_clean K vol rp = Returns True) \<and>
   (\<not> NVolLogFileEmpty vol \<and>
    (ntfs_is_rstr_record K (magic (rph p)) \<or> ntfs_is_chkd_record K (magic (rph p))) \<longrightarrow>
      ntfs_logfile_is_clean K vol (Some p) =
        Returns (\<not> (client_in_use_list (ra p) \<noteq> LOGFILE_NO_CLIENT K \<and>
                     flags (ra p) AND RESTART_VOLUME_IS_CLEAN K = 0)))"
  by (simp add: ntfs_logfile_is_clean_def)

theorem is_clean_classification_witness:
  "NVolLogFileEmpty (ex_vol\<lparr>LogFileEmpty := True\<rparr>) \<and>
   ntfs_logfile_is_clean ntfs_k (ex_vol\<lparr>LogFileEmpty := True\<rparr>) None = Returns True \<and>
   \<not> NVolLogFileEmpty ex_vol \<and> ntfs_is_rstr_record ntfs_k (magic (rph ex_page)) \<and>
   ntfs_logfile_is_clean ntfs_k ex_vol (Some ex_page) = Returns False"
  using is_clean_classification [of "ex_vol\<lparr>LogFileEmpty := True\<rparr>" ntfs_k None ex_page]
    is_clean_classification [of ex_vol ntfs_k None ex_page]
  by (simp add: NVolLogFileEmpty_def ex_vol_def ex_page_def ntfs_k_def ntfs_is_rstr_record_def)

text \<open>
  C9. On a journal not marked empty, a restart page that is not \<open>NULL\<close> and whose magic
  is neither the restart nor the chkdsk magic makes \<open>ntfs_logfile_is_clean\<close> return
  \<open>FALSE\<close>: the call returns (it does not panic) and reports the volume dirty.
\<close>

theorem is_clean_unvalidated_page:
  "\<not> NVolLogFileEmpty vol \<Longrightarrow> \<not> ntfs_is_rstr_record K (magic (rph p)) \<Longrightarrow>
   \<not> ntfs_is_chkd_record K (magic (rph p)) \<Longrightarrow>
   ntfs_logfile_is_clean K vol (Some p) = Returns False"
  by (simp add: ntfs_logfile_is_clean_def)

theorem is_clean_unvalidated_page_witness:
  "\<not> NVolLogFileEmpty ex_vol \<and>
   \<not> ntfs_is_rstr_record ntfs_k
       (magic (rph (ex_page\<lparr>rph := (rph ex_page)\<lparr>magic := 0x44524352\<rparr>\<rparr>))) \<and>
   \<not> ntfs_is_chkd_record ntfs_k
       (magic (rph (ex_page\<lparr>rph := (rph ex_page)\<lparr>magic := 0x44524352\<rparr>\<rparr>))) \<and>
   ntfs_logfile_is_clean ntfs_k ex_vol
     (Some (ex_page\<lparr>rph := (rph ex_page)\<lparr>magic := 0x44524352\<rparr>\<rparr>)) = Returns False"
  using is_clean_unvalidated_page [of ex_vol ntfs_k
      "ex_page\<lparr>rph := (rph ex_page)\<lparr>magic := 0x44524352\<rparr>\<rparr>"]
  by (simp add: NVolLogFileEmpty_def ex_vol_def ex_page_def ntfs_k_def
      ntfs_is_rstr_record_def ntfs_is_chkd_record_def)

subsection \<open>The sequence number bits\<close>

text \<open>The loop computes the bit length of the file size read as an unsigned value.\<close>

lemma fs_bits_loop_unat:
  "unat (fs_bits_loop w b) = (unat b + floorlog 2 (unat w)) mod 256"
proof (induction w b rule: fs_bits_loop.induct)
  case (1 fsize fs_bits)
  show ?case
  proof (cases "fsize = 0")
    case True
    then show ?thesis
      using unsigned_less [of fs_bits, where ?'a = nat] by (simp add: fs_bits_loop.simps [of 0] floorlog_def)
  next
    case False
    then have pos: "0 < unat fsize"
      by (simp add: unat_gt_0)
    have d: "unat (drop_bit 1 fsize) = unat fsize div 2"
      by (simp add: unat_drop_bit_eq drop_bit_eq_div unat_div)
    have b: "floorlog 2 (unat fsize) = floorlog 2 (unat fsize div 2) + 1"
      using pos compute_floorlog [of 2 "unat fsize"] by simp
    have "unat (fs_bits_loop fsize fs_bits)
        = unat (fs_bits_loop (drop_bit 1 fsize) (fs_bits + 1))"
      using False by (subst fs_bits_loop.simps) simp
    also have "\<dots> = (unat (fs_bits + 1) + floorlog 2 (unat fsize div 2)) mod 256"
      using False "1.IH" d by simp
    also have "\<dots> = ((unat fs_bits + 1) mod 256 + floorlog 2 (unat fsize div 2)) mod 256"
      by (simp add: unat_word_ariths)
    also have "\<dots> = (unat fs_bits + floorlog 2 (unat fsize)) mod 256"
      unfolding b by (simp add: mod_simps ac_simps)
    finally show ?thesis .
  qed
qed

lemma fs_bits_loop_bitlen: "uint (fs_bits_loop w 0) = bitlen (uint w)"
proof -
  have "unat w < 2 ^ 64"
    using unsigned_less [of w, where ?'a = nat] by simp
  then have "floorlog 2 (unat w) \<le> 64"
    by (simp add: floorlog_le_iff)
  then have "unat (fs_bits_loop w 0) = floorlog 2 (unat w)"
    by (simp add: fs_bits_loop_unat)
  then have "int (unat (fs_bits_loop w 0)) = int (floorlog 2 (unat w))"
    by simp
  then show ?thesis
    by (simp add: bitlen_def)
qed

lemma sint_nonneg_uint: "0 \<le> sint (w :: 64 word) \<Longrightarrow> sint w = uint w"
  using sint_lt [of w] by (simp add: uint_sint take_bit_int_eq_self)

lemma area_valid_seq_number_bits:
  "ntfs_restart_area_is_valid K rp \<Longrightarrow> seq_number_bits_consistent (ra rp)"
  by (simp add: ntfs_restart_area_is_valid_def Let_def split: if_splits)


lemma area_valid_seq_number_bits_update:
  "ntfs_restart_area_is_valid K rp \<Longrightarrow>
   ntfs_restart_area_is_valid K (rp\<lparr>ra := (ra rp)\<lparr>file_size := f, seq_number_bits := s\<rparr>\<rparr>) \<longleftrightarrow>
     seq_number_bits_consistent ((ra rp)\<lparr>file_size := f, seq_number_bits := s\<rparr>)"
  by (simp add: ntfs_restart_area_is_valid_def Let_def split: if_splits)

lemma seq_number_bits_consistent_iff:
  "seq_number_bits_consistent a \<longleftrightarrow>
     seq_number_bits a = word_of_int (67 - bitlen (uint (file_size a)))"
  by (simp add: seq_number_bits_consistent_def fs_bits_loop_bitlen)

text \<open>
  C5. The check of \<open>seq_number_bits\<close> round-trips. In a restart page that
  \<open>ntfs_restart_area_is_valid\<close> accepts, put any file size and any value of
  \<open>seq_number_bits\<close>: the validator accepts the result exactly when the field is 67
  minus the bit length of the file size (read as the \<open>u64\<close> the loop shifts). So for
  every file size that is not negative, the area whose field is 67 minus the bit length
  of the file size is accepted. That value passes the check of the field in any restart
  area; and a restart area whose field is that value plus one or minus one fails the
  check, and \<open>ntfs_restart_area_is_valid\<close> returns \<open>FALSE\<close> for it. The bit length is
  \<open>bitlen\<close> of the library: 0 for 0, otherwise one more than the position of the
  highest set bit.
\<close>

theorem seq_number_bits_round_trip:
  "(ntfs_restart_area_is_valid K rp \<longrightarrow>
      (\<forall>f s. ntfs_restart_area_is_valid K
                (rp\<lparr>ra := (ra rp)\<lparr>file_size := f, seq_number_bits := s\<rparr>\<rparr>) \<longleftrightarrow>
              s = word_of_int (67 - bitlen (uint f)))) \<and>
   (ntfs_restart_area_is_valid K rp \<longrightarrow>
      (\<forall>f. 0 \<le> sint f \<longrightarrow>
         ntfs_restart_area_is_valid K
           (rp\<lparr>ra := (ra rp)\<lparr>file_size := f,
              seq_number_bits := word_of_int (67 - bitlen (sint f))\<rparr>\<rparr>))) \<and>
   (0 \<le> sint (file_size (ra rp)) \<and>
    seq_number_bits (ra rp) = word_of_int (67 - bitlen (sint (file_size (ra rp))))
      \<longrightarrow> seq_number_bits_consistent (ra rp)) \<and>
   (seq_number_bits (ra rp) = word_of_int (67 - bitlen (uint (file_size (ra rp))) + 1) \<or>
    seq_number_bits (ra rp) = word_of_int (67 - bitlen (uint (file_size (ra rp))) - 1)
      \<longrightarrow> \<not> seq_number_bits_consistent (ra rp) \<and> \<not> ntfs_restart_area_is_valid K rp)"
proof -
  have upd: "ntfs_restart_area_is_valid K
        (rp\<lparr>ra := (ra rp)\<lparr>file_size := f, seq_number_bits := s\<rparr>\<rparr>) \<longleftrightarrow>
      s = word_of_int (67 - bitlen (uint f))"
    if "ntfs_restart_area_is_valid K rp" for f s
    using area_valid_seq_number_bits_update [OF that, where f = f and s = s]
    by (simp add: seq_number_bits_consistent_iff)
  have nonneg: "ntfs_restart_area_is_valid K
        (rp\<lparr>ra := (ra rp)\<lparr>file_size := f,
           seq_number_bits := word_of_int (67 - bitlen (sint f))\<rparr>\<rparr>)"
    if "ntfs_restart_area_is_valid K rp" "0 \<le> sint f" for f
    using upd [OF that(1)] that(2) by (simp add: sint_nonneg_uint)
  have field: "seq_number_bits_consistent (ra rp)"
    if "0 \<le> sint (file_size (ra rp))"
      and "seq_number_bits (ra rp) = word_of_int (67 - bitlen (sint (file_size (ra rp))))"
    using that by (simp add: seq_number_bits_consistent_iff sint_nonneg_uint)
  have up: "(word_of_int (c + 1) :: u32) \<noteq> word_of_int c" for c
    by simp
  have down: "(word_of_int (c - 1) :: u32) \<noteq> word_of_int c" for c
    by simp
  have off: "\<not> seq_number_bits_consistent (ra rp)"
    if "seq_number_bits (ra rp) = word_of_int (67 - bitlen (uint (file_size (ra rp))) + 1) \<or>
        seq_number_bits (ra rp) = word_of_int (67 - bitlen (uint (file_size (ra rp))) - 1)"
    using that up [of "67 - bitlen (uint (file_size (ra rp)))"]
      down [of "67 - bitlen (uint (file_size (ra rp)))"]
    unfolding seq_number_bits_consistent_iff by metis
  show ?thesis
    using upd nonneg field off area_valid_seq_number_bits [of K rp] by blast
qed

lemma bitlen_ex: "bitlen 4194304 = 23"
  by (simp add: compute_bitlen)

theorem seq_number_bits_round_trip_witness:
  "ntfs_restart_area_is_valid ntfs_k ex_page \<and>
   0 \<le> sint (4194304 :: s64) \<and> 0 \<le> sint (0 :: s64) \<and>
   ntfs_restart_area_is_valid ntfs_k
     (ex_page\<lparr>ra := (ra ex_page)\<lparr>file_size := 4194304, seq_number_bits := 44\<rparr>\<rparr>) \<and>
   \<not> ntfs_restart_area_is_valid ntfs_k
     (ex_page\<lparr>ra := (ra ex_page)\<lparr>file_size := 4194304, seq_number_bits := 45\<rparr>\<rparr>) \<and>
   \<not> ntfs_restart_area_is_valid ntfs_k
     (ex_page\<lparr>ra := (ra ex_page)\<lparr>file_size := 4194304, seq_number_bits := 43\<rparr>\<rparr>) \<and>
   ntfs_restart_area_is_valid ntfs_k
     (ex_page\<lparr>ra := (ra ex_page)\<lparr>file_size := 0, seq_number_bits := 67\<rparr>\<rparr>) \<and>
   \<not> ntfs_restart_area_is_valid ntfs_k
     (ex_page\<lparr>ra := (ra ex_page)\<lparr>file_size := 0, seq_number_bits := 68\<rparr>\<rparr>) \<and>
   seq_number_bits (ra ex_page) = word_of_int (67 - bitlen (sint (file_size (ra ex_page)))) \<and>
   seq_number_bits_consistent (ra ex_page) \<and>
   seq_number_bits (ra (ex_page\<lparr>ra := (ra ex_page)\<lparr>seq_number_bits := 45\<rparr>\<rparr>)) =
     word_of_int (67 - bitlen (uint (file_size (ra ex_page))) + 1) \<and>
   \<not> ntfs_restart_area_is_valid ntfs_k (ex_page\<lparr>ra := (ra ex_page)\<lparr>seq_number_bits := 45\<rparr>\<rparr>)"
proof -
  have v: "ntfs_restart_area_is_valid ntfs_k ex_page"
    by (simp add: ntfs_restart_area_is_valid_def ex_page_def ntfs_k_def Let_def
        seq_number_bits_consistent_def fs_bits_loop_bitlen bitlen_ex)
  note t = seq_number_bits_round_trip [where K = ntfs_k and rp = ex_page]
  from t v have a: "ntfs_restart_area_is_valid ntfs_k
        (ex_page\<lparr>ra := (ra ex_page)\<lparr>file_size := f, seq_number_bits := s\<rparr>\<rparr>) \<longleftrightarrow>
      s = word_of_int (67 - bitlen (uint f))" for f s
    by blast
  have b: "0 \<le> sint (4194304 :: s64)" "0 \<le> sint (0 :: s64)"
    by simp_all
  have c: "seq_number_bits (ra ex_page) = word_of_int (67 - bitlen (sint (file_size (ra ex_page))))"
    "0 \<le> sint (file_size (ra ex_page))"
    "seq_number_bits (ra (ex_page\<lparr>ra := (ra ex_page)\<lparr>seq_number_bits := 45\<rparr>\<rparr>)) =
       word_of_int (67 - bitlen (uint (file_size (ra ex_page))) + 1)"
    by (simp_all add: ex_page_def bitlen_ex)
  from t c(1,2) have d: "seq_number_bits_consistent (ra ex_page)"
    by blast
  from seq_number_bits_round_trip [where K = ntfs_k and
      rp = "ex_page\<lparr>ra := (ra ex_page)\<lparr>seq_number_bits := 45\<rparr>\<rparr>"] c(3)
  have e: "\<not> ntfs_restart_area_is_valid ntfs_k (ex_page\<lparr>ra := (ra ex_page)\<lparr>seq_number_bits := 45\<rparr>\<rparr>)"
    by simp
  have f: "(44 :: u32) = word_of_int (67 - bitlen (uint (4194304 :: s64)))"
    "(45 :: u32) \<noteq> word_of_int (67 - bitlen (uint (4194304 :: s64)))"
    "(43 :: u32) \<noteq> word_of_int (67 - bitlen (uint (4194304 :: s64)))"
    "(67 :: u32) = word_of_int (67 - bitlen (uint (0 :: s64)))"
    "(68 :: u32) \<noteq> word_of_int (67 - bitlen (uint (0 :: s64)))"
    by (simp_all add: bitlen_ex)
  show ?thesis
    using v b c(1,3) d e f unfolding a by (simp only: simp_thms)
qed


subsection \<open>The client lists\<close>

lemma check_list_sentinel:
  "check_list K rp nr (LOGFILE_NO_CLIENT K) first = Some nr"
  by (simp add: check_list.simps)

lemma check_list_step:
  "idx \<noteq> LOGFILE_NO_CLIENT K \<Longrightarrow>
   check_list K rp nr idx first =
     (if nr = 0 \<or> idx \<ge> log_clients (ra rp) then None
      else if first \<and> prev_client (ca rp idx) \<noteq> LOGFILE_NO_CLIENT K then None
      else check_list K rp (nr - 1) (next_client (ca rp idx)) False)"
  by (subst check_list.simps) (simp add: Let_def)

lemma check_list_chain:
  "client_chain K rp idx xs \<Longrightarrow> length xs \<le> unat nr \<Longrightarrow>
   (first \<Longrightarrow> xs \<noteq> [] \<Longrightarrow> prev_client (ca rp idx) = LOGFILE_NO_CLIENT K) \<Longrightarrow>
   \<exists>nr'. check_list K rp nr idx first = Some nr' \<and> unat nr' = unat nr - length xs"
proof (induction xs arbitrary: idx nr first)
  case Nil
  then show ?case
    by (simp add: check_list_sentinel)
next
  case (Cons i xs)
  from Cons.prems(1) have i: "idx = i" "i \<noteq> LOGFILE_NO_CLIENT K" "i < log_clients (ra rp)"
    and rest: "client_chain K rp (next_client (ca rp i)) xs"
    by simp_all
  from Cons.prems(2) have nr: "nr \<noteq> 0"
    by auto
  with Cons.prems(2) have len: "length xs \<le> unat (nr - 1)"
    by (simp add: unat_minus_one)
  have "\<exists>nr'. check_list K rp (nr - 1) (next_client (ca rp i)) False = Some nr' \<and>
      unat nr' = unat (nr - 1) - length xs"
    using Cons.IH [OF rest len] by simp
  moreover have "check_list K rp nr idx first =
      check_list K rp (nr - 1) (next_client (ca rp i)) False"
  proof -
    have a: "\<not> (nr = 0 \<or> i \<ge> log_clients (ra rp))"
      using nr i(3) by (simp add: not_le)
    have b: "\<not> (first \<and> prev_client (ca rp i) \<noteq> LOGFILE_NO_CLIENT K)"
      using Cons.prems(3) i(1) by blast
    show ?thesis
      unfolding i(1) check_list_step [OF i(2), of rp nr first] if_not_P [OF a] if_not_P [OF b]
      by (rule refl)
  qed
  moreover have "unat (nr - 1) - length xs = unat nr - length (i # xs)"
    using nr by (simp add: unat_minus_one)
  ultimately show ?case
    by simp
qed

lemma check_list_fails:
  "idx \<noteq> LOGFILE_NO_CLIENT K \<Longrightarrow> nr = 0 \<or> log_clients (ra rp) \<le> idx \<Longrightarrow>
   check_list K rp nr idx first = None"
  by (simp add: check_list_step)

lemma check_list_Some:
  "check_list K rp nr idx first = Some nr' \<Longrightarrow>
   \<exists>xs. client_chain K rp idx xs \<and> length xs + unat nr' = unat nr \<and>
     (first \<longrightarrow> (case xs of [] \<Rightarrow> True
                   | i # is \<Rightarrow> prev_client (ca rp i) = LOGFILE_NO_CLIENT K))"
proof (induction "unat nr" arbitrary: nr idx first)
  case 0
  then have z: "nr = 0"
    by (simp add: unat_eq_0)
  show ?case
  proof (cases "idx = LOGFILE_NO_CLIENT K")
    case True
    with "0.prems" have "nr' = nr"
      by (simp add: check_list_sentinel)
    with True show ?thesis
      by (intro exI [of _ "[]"]) simp
  next
    case False
    with "0.prems" z show ?thesis
      by (simp add: check_list_step)
  qed
next
  case (Suc n)
  show ?case
  proof (cases "idx = LOGFILE_NO_CLIENT K")
    case True
    with Suc.prems have "nr' = nr"
      by (simp add: check_list_sentinel)
    with True show ?thesis
      by (intro exI [of _ "[]"]) simp
  next
    case False
    from Suc.prems have c: "\<not> (nr = 0 \<or> log_clients (ra rp) \<le> idx)"
      and p: "\<not> (first \<and> prev_client (ca rp idx) \<noteq> LOGFILE_NO_CLIENT K)"
      and r: "check_list K rp (nr - 1) (next_client (ca rp idx)) False = Some nr'"
      unfolding check_list_step [OF False] by (auto split: if_splits)
    from c have nz: "nr \<noteq> 0"
      by simp
    then have m: "n = unat (nr - 1)" and u: "unat nr = Suc (unat (nr - 1))"
      using Suc.hyps(2) by (simp_all add: unat_minus_one)
    from Suc.hyps(1) [OF m r] obtain xs
      where xs: "client_chain K rp (next_client (ca rp idx)) xs"
        "length xs + unat nr' = unat (nr - 1)"
      by blast
    have "client_chain K rp idx (idx # xs)"
      using False c xs(1) by (simp add: not_le)
    moreover have "length (idx # xs) + unat nr' = unat nr"
      using xs(2) u by simp
    moreover have "first \<longrightarrow> prev_client (ca rp idx) = LOGFILE_NO_CLIENT K"
      using p by blast
    ultimately show ?thesis
      by (intro exI [of _ "idx # xs"]) simp
  qed
qed

lemma client_chain_unique:
  "client_chain K rp idx xs \<Longrightarrow> client_chain K rp idx ys \<Longrightarrow> xs = ys"
proof (induction xs arbitrary: idx ys)
  case Nil
  then show ?case by (cases ys) auto
next
  case (Cons i xs)
  then show ?case by (cases ys) auto
qed

lemma client_chain_suffix:
  "client_chain K rp idx (as @ j # bs) \<Longrightarrow> client_chain K rp j (j # bs)"
  by (induction as arbitrary: idx) auto

lemma client_chain_distinct: "client_chain K rp idx xs \<Longrightarrow> distinct xs"
proof (induction xs arbitrary: idx)
  case Nil
  then show ?case by simp
next
  case (Cons i xs)
  from Cons.prems have rest: "client_chain K rp (next_client (ca rp i)) xs" and h: "idx = i"
    by simp_all
  have "i \<notin> set xs"
  proof
    assume "i \<in> set xs"
    then obtain as bs where s: "xs = as @ i # bs"
      by (auto simp: in_set_conv_decomp)
    from rest have "client_chain K rp i (i # bs)"
      unfolding s by (rule client_chain_suffix)
    moreover from Cons.prems have "client_chain K rp i (i # as @ i # bs)"
      by (simp add: s h)
    ultimately have "i # bs = i # as @ i # bs"
      by (rule client_chain_unique)
    then have "length bs = length (as @ i # bs)"
      by simp
    then show False
      by simp
  qed
  with Cons.IH [OF rest] show ?case
    by simp
qed

lemma client_chain_below:
  "client_chain K rp idx xs \<Longrightarrow> x \<in> set xs \<Longrightarrow> x < log_clients (ra rp)"
  by (induction xs arbitrary: idx) auto

lemma distinct_below_length:
  fixes zs :: "u16 list"
  assumes "distinct zs" and "\<And>x. x \<in> set zs \<Longrightarrow> x < n"
  shows "length zs \<le> unat n"
proof -
  have "length zs = card (set zs)"
    using assms(1) by (simp add: distinct_card)
  also have "\<dots> = card (unat ` set zs)"
    by (rule card_image [symmetric]) (auto simp: inj_on_def word_unat_eq_iff)
  also have "\<dots> \<le> card {..<unat n}"
  proof (rule card_mono)
    show "finite {..<unat n}" by simp
    show "unat ` set zs \<subseteq> {..<unat n}"
      using assms(2) by (auto simp: word_less_nat_alt)
  qed
  finally show ?thesis
    by simp
qed

lemma disjoint_chains_fit:
  assumes "client_chain K rp a xs" and "client_chain K rp b ys" and "set xs \<inter> set ys = {}"
  shows "length xs + length ys \<le> unat (log_clients (ra rp))"
proof -
  have "distinct (xs @ ys)"
    using assms client_chain_distinct by auto
  moreover have "x < log_clients (ra rp)" if "x \<in> set (xs @ ys)" for x
    using that assms(1,2) client_chain_below by auto
  ultimately have "length (xs @ ys) \<le> unat (log_clients (ra rp))"
    by (rule distinct_below_length)
  then show ?thesis
    by simp
qed

lemma consistent_in_use_budget:
  "ntfs_log_client_array_is_consistent K rp \<longleftrightarrow>
     (\<exists>left. in_use_list_budget K rp = Some left \<and>
        check_list K rp left (client_in_use_list (ra rp)) True \<noteq> None)"
  by (simp add: ntfs_log_client_array_is_consistent_def in_use_list_budget_def
      split: option.split)

lemma well_formed_list_parts:
  "well_formed_list K rp head xs \<longleftrightarrow>
     client_chain K rp head xs \<and> (xs \<noteq> [] \<longrightarrow> prev_client (ca rp head) = LOGFILE_NO_CLIENT K)"
  by (cases xs) (auto simp: well_formed_list_def)

lemma client_chain_length:
  assumes "client_chain K rp idx xs"
  shows "length xs \<le> unat (log_clients (ra rp))"
  using client_chain_distinct [OF assms] client_chain_below [OF assms]
  by (rule distinct_below_length)

lemma free_list_leaves_budget:
  assumes "well_formed_list K rp (client_free_list (ra rp)) xs"
  shows "\<exists>left. in_use_list_budget K rp = Some left \<and>
    unat left = unat (log_clients (ra rp)) - length xs \<and>
    length xs \<le> unat (log_clients (ra rp))"
proof -
  from assms have c: "client_chain K rp (client_free_list (ra rp)) xs"
    and p: "xs \<noteq> [] \<Longrightarrow> prev_client (ca rp (client_free_list (ra rp))) = LOGFILE_NO_CLIENT K"
    by (simp_all add: well_formed_list_parts)
  note l = client_chain_length [OF c]
  from check_list_chain [OF c l p] l show ?thesis
    unfolding in_use_list_budget_def by blast
qed

lemma consistent_iff_lists_fit:
  "ntfs_log_client_array_is_consistent K rp \<longleftrightarrow>
     (\<exists>fs us. well_formed_list K rp (client_free_list (ra rp)) fs \<and>
        well_formed_list K rp (client_in_use_list (ra rp)) us \<and>
        length fs + length us \<le> unat (log_clients (ra rp)))"
proof
  assume "ntfs_log_client_array_is_consistent K rp"
  then obtain left rest
    where f: "check_list K rp (log_clients (ra rp)) (client_free_list (ra rp)) True = Some left"
      and u: "check_list K rp left (client_in_use_list (ra rp)) True = Some rest"
    by (auto simp: ntfs_log_client_array_is_consistent_def split: option.splits)
  from check_list_Some [OF f] obtain fs
    where fs: "well_formed_list K rp (client_free_list (ra rp)) fs"
      "length fs + unat left = unat (log_clients (ra rp))"
    by (auto simp: well_formed_list_def)
  from check_list_Some [OF u] obtain us
    where us: "well_formed_list K rp (client_in_use_list (ra rp)) us"
      "length us + unat rest = unat left"
    by (auto simp: well_formed_list_def)
  from fs(2) us(2) have "length fs + length us \<le> unat (log_clients (ra rp))"
    by simp
  with fs(1) us(1) show "\<exists>fs us. well_formed_list K rp (client_free_list (ra rp)) fs \<and>
        well_formed_list K rp (client_in_use_list (ra rp)) us \<and>
        length fs + length us \<le> unat (log_clients (ra rp))"
    by blast
next
  assume "\<exists>fs us. well_formed_list K rp (client_free_list (ra rp)) fs \<and>
        well_formed_list K rp (client_in_use_list (ra rp)) us \<and>
        length fs + length us \<le> unat (log_clients (ra rp))"
  then obtain fs us where fs: "well_formed_list K rp (client_free_list (ra rp)) fs"
    and us: "well_formed_list K rp (client_in_use_list (ra rp)) us"
    and fit: "length fs + length us \<le> unat (log_clients (ra rp))"
    by blast
  from free_list_leaves_budget [OF fs] obtain left
    where b: "in_use_list_budget K rp = Some left"
      and l: "unat left = unat (log_clients (ra rp)) - length fs"
    by blast
  from us have c: "client_chain K rp (client_in_use_list (ra rp)) us"
    and p: "us \<noteq> [] \<Longrightarrow> prev_client (ca rp (client_in_use_list (ra rp))) = LOGFILE_NO_CLIENT K"
    by (simp_all add: well_formed_list_parts)
  from fit l have "length us \<le> unat left"
    by simp
  from check_list_chain [OF c this p]
  have "check_list K rp left (client_in_use_list (ra rp)) True \<noteq> None"
    by auto
  with b show "ntfs_log_client_array_is_consistent K rp"
    unfolding consistent_in_use_budget by blast
qed

lemma check_list_visits_sentinel:
  "check_list_visits K rp nr (LOGFILE_NO_CLIENT K) first = []"
  by (simp add: check_list_visits.simps)

lemma check_list_visits_step:
  "idx \<noteq> LOGFILE_NO_CLIENT K \<Longrightarrow>
   check_list_visits K rp nr idx first =
     (if nr = 0 \<or> idx \<ge> log_clients (ra rp) then []
      else if first \<and> prev_client (ca rp idx) \<noteq> LOGFILE_NO_CLIENT K then [idx]
      else idx # check_list_visits K rp (nr - 1) (next_client (ca rp idx)) False)"
  by (subst check_list_visits.simps) (simp add: Let_def)

lemma check_list_visits_length:
  "length (check_list_visits K rp nr idx first) \<le> unat nr \<and>
   (\<forall>nr'. check_list K rp nr idx first = Some nr' \<longrightarrow>
      length (check_list_visits K rp nr idx first) + unat nr' = unat nr)"
proof (induction "unat nr" arbitrary: nr idx first)
  case 0
  then have z: "nr = 0"
    by (simp add: unat_eq_0)
  show ?case
  proof (cases "idx = LOGFILE_NO_CLIENT K")
    case True
    then show ?thesis
      by (simp add: check_list_visits_sentinel check_list_sentinel)
  next
    case False
    then show ?thesis
      using z by (simp add: check_list_visits_step check_list_step)
  qed
next
  case (Suc n)
  then have nz: "nr \<noteq> 0"
    by auto
  then have m: "unat (nr - 1) = n" and u: "unat nr = Suc (unat (nr - 1))"
    using Suc.hyps(2) by (simp_all add: unat_minus_one)
  note IH = Suc.hyps(1) [OF m [symmetric], of "next_client (ca rp idx)" False]
  show ?case
  proof (cases "idx = LOGFILE_NO_CLIENT K")
    case True
    then show ?thesis
      by (simp add: check_list_visits_sentinel check_list_sentinel)
  next
    case False
    show ?thesis
      unfolding check_list_visits_step [OF False] check_list_step [OF False]
      using IH nz u by auto
  qed
qed

lemma client_array_visits_length:
  "length (client_array_visits K rp) \<le> unat (log_clients (ra rp))"
proof (cases "check_list K rp (log_clients (ra rp)) (client_free_list (ra rp)) True")
  case None
  then show ?thesis
    using check_list_visits_length [of K rp "log_clients (ra rp)" "client_free_list (ra rp)" True]
    by (simp add: client_array_visits_def)
next
  case (Some nr')
  then show ?thesis
    using check_list_visits_length [of K rp "log_clients (ra rp)" "client_free_list (ra rp)" True]
      check_list_visits_length [of K rp nr' "client_in_use_list (ra rp)" True]
    by (simp add: client_array_visits_def)
qed

text \<open>
  C3, as the code has it. The loop under \<open>check_list\<close> fails when an index other than
  the sentinel is met with the budget at 0, or is not below \<open>log_clients\<close>. The free
  list is traversed with the budget \<open>log_clients\<close>, and the in-use list is then
  traversed with what the free list has left of it (\<open>in_use_list_budget\<close>), since
  \<open>nr_clients\<close> is not assigned again: after a well-formed free list that is
  \<open>log_clients\<close> minus its length. So the validator accepts exactly when both lists
  are well formed and their lengths total at most \<open>log_clients\<close>. In particular it
  accepts every pair of well-formed lists that share no record and are each of length
  at most \<open>log_clients\<close>; and it visits at most \<open>log_clients\<close> records in all.
\<close>

theorem client_lists_shared_budget:
  "(idx \<noteq> LOGFILE_NO_CLIENT K \<and> (nr = 0 \<or> log_clients (ra rp) \<le> idx) \<longrightarrow>
      check_list K rp nr idx first = None) \<and>
   (ntfs_log_client_array_is_consistent K rp \<longleftrightarrow>
      (\<exists>left. in_use_list_budget K rp = Some left \<and>
         check_list K rp left (client_in_use_list (ra rp)) True \<noteq> None)) \<and>
   (well_formed_list K rp (client_free_list (ra rp)) xs \<longrightarrow>
      (\<exists>left. in_use_list_budget K rp = Some left \<and>
         unat left = unat (log_clients (ra rp)) - length xs \<and>
         length xs \<le> unat (log_clients (ra rp)))) \<and>
   (ntfs_log_client_array_is_consistent K rp \<longleftrightarrow>
      (\<exists>fs us. well_formed_list K rp (client_free_list (ra rp)) fs \<and>
         well_formed_list K rp (client_in_use_list (ra rp)) us \<and>
         length fs + length us \<le> unat (log_clients (ra rp)))) \<and>
   (well_formed_list K rp (client_free_list (ra rp)) xs \<and>
    well_formed_list K rp (client_in_use_list (ra rp)) ys \<and>
    set xs \<inter> set ys = {} \<and>
    length xs \<le> unat (log_clients (ra rp)) \<and> length ys \<le> unat (log_clients (ra rp)) \<longrightarrow>
      ntfs_log_client_array_is_consistent K rp) \<and>
   length (client_array_visits K rp) \<le> unat (log_clients (ra rp))"
proof -
  have disjoint: "ntfs_log_client_array_is_consistent K rp"
    if "well_formed_list K rp (client_free_list (ra rp)) xs"
      "well_formed_list K rp (client_in_use_list (ra rp)) ys" "set xs \<inter> set ys = {}"
  proof -
    from that(1,2) have "client_chain K rp (client_free_list (ra rp)) xs"
      "client_chain K rp (client_in_use_list (ra rp)) ys"
      by (simp_all add: well_formed_list_parts)
    then have "length xs + length ys \<le> unat (log_clients (ra rp))"
      using that(3) by (rule disjoint_chains_fit)
    with that(1,2) show ?thesis
      unfolding consistent_iff_lists_fit by blast
  qed
  have fails: "idx \<noteq> LOGFILE_NO_CLIENT K \<and> (nr = 0 \<or> log_clients (ra rp) \<le> idx) \<longrightarrow>
      check_list K rp nr idx first = None"
    by (simp add: check_list_fails)
  have left: "well_formed_list K rp (client_free_list (ra rp)) xs \<longrightarrow>
      (\<exists>left. in_use_list_budget K rp = Some left \<and>
         unat left = unat (log_clients (ra rp)) - length xs \<and>
         length xs \<le> unat (log_clients (ra rp)))"
    using free_list_leaves_budget [of K rp xs] by blast
  have dis: "well_formed_list K rp (client_free_list (ra rp)) xs \<and>
    well_formed_list K rp (client_in_use_list (ra rp)) ys \<and>
    set xs \<inter> set ys = {} \<and>
    length xs \<le> unat (log_clients (ra rp)) \<and> length ys \<le> unat (log_clients (ra rp)) \<longrightarrow>
      ntfs_log_client_array_is_consistent K rp"
    using disjoint by blast
  show ?thesis
    apply (rule conjI [OF fails])
    apply (rule conjI [OF consistent_in_use_budget])
    apply (rule conjI [OF left])
    apply (rule conjI [OF consistent_iff_lists_fit])
    apply (rule conjI [OF dis])
    apply (rule client_array_visits_length)
    done
qed

theorem client_lists_shared_budget_witness:
  "(0 :: u16) \<noteq> LOGFILE_NO_CLIENT ntfs_k \<and> check_list ntfs_k ex_lists 0 0 True = None \<and>
   well_formed_list ntfs_k ex_lists (client_free_list (ra ex_lists)) [2] \<and>
   well_formed_list ntfs_k ex_lists (client_in_use_list (ra ex_lists)) [0, 1] \<and>
   set [2 :: u16] \<inter> set [0, 1] = {} \<and>
   length [2 :: u16] \<le> unat (log_clients (ra ex_lists)) \<and>
   length [0, 1 :: u16] \<le> unat (log_clients (ra ex_lists)) \<and>
   (\<exists>left. in_use_list_budget ntfs_k ex_lists = Some left \<and> unat left = 2) \<and>
   ntfs_log_client_array_is_consistent ntfs_k ex_lists \<and>
   length (client_array_visits ntfs_k ex_lists) \<le> 3"
proof -
  have a: "well_formed_list ntfs_k ex_lists (client_free_list (ra ex_lists)) [2]"
    by (simp add: well_formed_list_def ex_lists_def ex_page_def ntfs_k_def)
  have b: "well_formed_list ntfs_k ex_lists (client_in_use_list (ra ex_lists)) [0, 1]"
    by (simp add: well_formed_list_def ex_lists_def ex_page_def ntfs_k_def)
  have c: "set [2 :: u16] \<inter> set [0, 1] = {}"
    "length [2 :: u16] \<le> unat (log_clients (ra ex_lists))"
    "length [0, 1 :: u16] \<le> unat (log_clients (ra ex_lists))"
    "unat (log_clients (ra ex_lists)) = 3"
    "(0 :: u16) \<noteq> LOGFILE_NO_CLIENT ntfs_k"
    by (simp_all add: ex_lists_def ex_page_def ntfs_k_def)
  note t = client_lists_shared_budget [of 0 ntfs_k 0 ex_lists True "[2]" "[0, 1]"]
  from t c(5) have d: "check_list ntfs_k ex_lists 0 0 True = None"
    by (elim conjE) simp
  from t a c(4) have e: "\<exists>left. in_use_list_budget ntfs_k ex_lists = Some left \<and> unat left = 2"
    by (elim conjE) simp
  from t a b c(1,2,3) have f: "ntfs_log_client_array_is_consistent ntfs_k ex_lists"
    by (elim conjE) (simp only: simp_thms)
  from t c(4) have g: "length (client_array_visits ntfs_k ex_lists) \<le> 3"
    by (elim conjE) simp
  from a b c d e f g show ?thesis
    by (simp only: simp_thms)
qed

text \<open>
  C3 as stated fails in its account of the budget. With three clients, the free list 2
  and the in-use list 0, 1, which are well formed and share no record, the in-use list
  is traversed with the budget 2 and not with a fresh budget of \<open>log_clients\<close> = 3,
  and three records are visited in all. The two budgets tell apart where the lists
  share a record: with one client that heads both lists, a validator that gave the
  in-use list a fresh budget would pass, and the code rejects.
\<close>

theorem fresh_budget_counterexample:
  "well_formed_list ntfs_k ex_lists (client_free_list (ra ex_lists)) [2] \<and>
   well_formed_list ntfs_k ex_lists (client_in_use_list (ra ex_lists)) [0, 1] \<and>
   set [2 :: u16] \<inter> set [0, 1] = {} \<and>
   length [2 :: u16] \<le> unat (log_clients (ra ex_lists)) \<and>
   length [0, 1 :: u16] \<le> unat (log_clients (ra ex_lists)) \<and>
   log_clients (ra ex_lists) = 3 \<and>
   in_use_list_budget ntfs_k ex_lists = Some 2 \<and>
   in_use_list_budget ntfs_k ex_lists \<noteq> Some (log_clients (ra ex_lists)) \<and>
   client_array_visits ntfs_k ex_lists = [2, 0, 1] \<and>
   fresh_budget_client_array_is_consistent ntfs_k ex_shared \<and>
   \<not> ntfs_log_client_array_is_consistent ntfs_k ex_shared"
  by (simp add: well_formed_list_def in_use_list_budget_def client_array_visits_def
      fresh_budget_client_array_is_consistent_def ntfs_log_client_array_is_consistent_def
      check_list.simps check_list_visits.simps Let_def word_le_nat_alt ex_lists_def ex_shared_def ex_page_def ntfs_k_def)

lemma check_list_never_ends:
  "(\<And>k. ((\<lambda>i. next_client (ca rp i)) ^^ k) idx \<noteq> LOGFILE_NO_CLIENT K) \<Longrightarrow>
   check_list K rp nr idx first = None"
proof (induction "unat nr" arbitrary: nr idx first)
  case 0
  then have z: "nr = 0"
    by (simp add: unat_eq_0)
  from "0.prems" [of 0] have "idx \<noteq> LOGFILE_NO_CLIENT K"
    by simp
  then show ?case
    using z by (simp add: check_list_step)
next
  case (Suc n)
  then have nz: "nr \<noteq> 0"
    by auto
  then have m: "n = unat (nr - 1)"
    using Suc.hyps(2) by (simp add: unat_minus_one)
  from Suc.prems [of 0] have i: "idx \<noteq> LOGFILE_NO_CLIENT K"
    by simp
  have "((\<lambda>i. next_client (ca rp i)) ^^ k) (next_client (ca rp idx)) \<noteq> LOGFILE_NO_CLIENT K"
    for k
    using Suc.prems [of "Suc k"] by (simp only: funpow_Suc_right o_apply not_False_eq_True)
  then have "check_list K rp (nr - 1) (next_client (ca rp idx)) False = None"
    by (rule Suc.hyps(1) [OF m])
  then show ?case
    by (simp add: check_list_step [OF i])
qed

lemma client_path_closed:
  "client_path K rp idx xs \<Longrightarrow> set xs \<subseteq> S \<Longrightarrow> xs \<noteq> [] \<Longrightarrow>
   next_client (ca rp (last xs)) \<in> S \<Longrightarrow> y \<in> set xs \<Longrightarrow> next_client (ca rp y) \<in> S"
proof (induction xs arbitrary: idx)
  case Nil
  then show ?case by simp
next
  case (Cons i xs)
  show ?case
  proof (cases xs)
    case Nil
    then show ?thesis
      using Cons.prems by simp
  next
    case (Cons j zs)
    with Cons.prems(1) have j: "next_client (ca rp i) = j"
      and rest: "client_path K rp (next_client (ca rp i)) xs"
      by simp_all
    show ?thesis
    proof (cases "y = i")
      case True
      then show ?thesis
        using j Cons Cons.prems(2) by auto
    next
      case False
      with Cons.prems(5) have "y \<in> set xs"
        by simp
      moreover have "set xs \<subseteq> S" "xs \<noteq> []" "next_client (ca rp (last xs)) \<in> S"
        using Cons.prems(2,4) Cons by simp_all
      ultimately show ?thesis
        using Cons.IH [OF rest] by blast
    qed
  qed
qed

lemma client_path_no_sentinel:
  "client_path K rp idx xs \<Longrightarrow> y \<in> set xs \<Longrightarrow> y \<noteq> LOGFILE_NO_CLIENT K"
  by (induction xs arbitrary: idx) auto

lemma client_path_head: "client_path K rp idx xs \<Longrightarrow> xs \<noteq> [] \<Longrightarrow> idx \<in> set xs"
  by (cases xs) auto

lemma cyclic_list_never_ends:
  assumes "client_path K rp idx xs" and "xs \<noteq> []"
    and "next_client (ca rp (last xs)) \<in> set xs"
  shows "((\<lambda>i. next_client (ca rp i)) ^^ k) idx \<noteq> LOGFILE_NO_CLIENT K"
proof -
  have "((\<lambda>i. next_client (ca rp i)) ^^ k) idx \<in> set xs"
  proof (induction k)
    case 0
    then show ?case
      using client_path_head [OF assms(1,2)] by simp
  next
    case (Suc k)
    then show ?case
      using client_path_closed [OF assms(1) subset_refl assms(2,3)] by simp
  qed
  then show ?thesis
    by (rule client_path_no_sentinel [OF assms(1)])
qed

text \<open>
  C4. The traversal of the client lists terminates for every client array and every pair
  of heads: \<open>check_list\<close> is a total function, its termination proved from the budget
  \<open>nr_clients\<close>, which decreases at each step. The validator visits at most
  \<open>log_clients\<close> records in all. A list (free or in-use) whose last node points back
  into the list is rejected.
\<close>

theorem client_list_traversal_terminates:
  "length (client_array_visits K rp) \<le> unat (log_clients (ra rp)) \<and>
   ((client_path K rp (client_free_list (ra rp)) xs \<or>
     client_path K rp (client_in_use_list (ra rp)) xs) \<and>
    xs \<noteq> [] \<and> next_client (ca rp (last xs)) \<in> set xs
      \<longrightarrow> \<not> ntfs_log_client_array_is_consistent K rp)"
proof -
  have free: "\<not> ntfs_log_client_array_is_consistent K rp"
    if "client_path K rp (client_free_list (ra rp)) xs" "xs \<noteq> []"
      "next_client (ca rp (last xs)) \<in> set xs"
  proof -
    have "check_list K rp (log_clients (ra rp)) (client_free_list (ra rp)) True = None"
      by (rule check_list_never_ends) (rule cyclic_list_never_ends [OF that])
    then show ?thesis
      by (simp add: ntfs_log_client_array_is_consistent_def)
  qed
  have in_use: "\<not> ntfs_log_client_array_is_consistent K rp"
    if "client_path K rp (client_in_use_list (ra rp)) xs" "xs \<noteq> []"
      "next_client (ca rp (last xs)) \<in> set xs"
  proof -
    have "check_list K rp nr (client_in_use_list (ra rp)) True = None" for nr
      by (rule check_list_never_ends) (rule cyclic_list_never_ends [OF that])
    then show ?thesis
      by (simp add: ntfs_log_client_array_is_consistent_def split: option.splits)
  qed
  show ?thesis
    using client_array_visits_length [of K rp] free in_use by blast
qed

theorem client_list_traversal_terminates_witness:
  "length (client_array_visits ntfs_k ex_cycle) \<le> unat (log_clients (ra ex_cycle)) \<and>
   client_path ntfs_k ex_cycle (client_in_use_list (ra ex_cycle)) [0, 1, 2] \<and>
   [0, 1, 2 :: u16] \<noteq> [] \<and>
   next_client (ca ex_cycle (last [0, 1, 2])) \<in> set [0, 1, 2] \<and>
   \<not> ntfs_log_client_array_is_consistent ntfs_k ex_cycle"
  using client_list_traversal_terminates [of ntfs_k ex_cycle "[0, 1, 2]"]
  by (simp add: ex_cycle_def ex_page_def ntfs_k_def)

subsection \<open>The state through the loader and the scanner\<close>

text \<open>
  The loader and the scanner change the log of I/O calls and the heap of buffers, and
  nothing else of the state; a buffer that was allocated before a call of the loader is
  left as it was.
\<close>

lemma read_remaining_state:
  assumes "read_remaining K env vol p sz to_read = Some r"
  shows "\<forall>err vol'. r = Returns (err, vol') \<longrightarrow>
      LogFileEmpty vol' = LogFileEmpty vol \<and> data_size vol' = data_size vol \<and>
      heap vol' = heap vol \<and> next_buf vol' = next_buf vol"
  using assms
proof (induction rule: read_remaining.raw_induct [rotated 1, consumes 1])
  case (1 rd K env vol p sz to_read r)
  define p' where "p' = p + int sz"
  define vol1 where "vol1 = vol\<lparr>io_log := PageMap p' # io_log vol\<rparr>"
  define sz' where "sz' = (if to_read < PAGE_SIZE K then to_read else PAGE_SIZE K)"
  define misaligned where "misaligned \<longleftrightarrow> take_bit 32 p' AND int (PAGE_MASK K) \<noteq> 0"
  define err where "err = ntfs_page_map env p'"
  have vol1: "LogFileEmpty vol1 = LogFileEmpty vol" "data_size vol1 = data_size vol"
    "heap vol1 = heap vol" "next_buf vol1 = next_buf vol"
    by (simp_all add: vol1_def)
  from "1.hyps" have body:
    "(if misaligned then Some Panics
      else if err \<noteq> 0
        then Some (Returns ((if err \<noteq> EIO \<and> err \<noteq> ENOMEM then EIO else err), vol1))
        else if 0 < to_read - sz' then rd K env vol1 p' sz' (to_read - sz')
        else Some (Returns (0, vol1))) = Some r"
    unfolding Let_def p'_def vol1_def sz'_def misaligned_def err_def .
  have "r = Panics \<or> (\<exists>e. r = Returns (e, vol1)) \<or>
      rd K env vol1 p' sz' (to_read - sz') = Some r"
  proof (cases misaligned)
    case True
    with body show ?thesis by simp
  next
    case c1: False
    show ?thesis
    proof (cases "err = 0")
      case False
      with body c1 show ?thesis by simp blast
    next
      case c2: True
      show ?thesis
      proof (cases "0 < to_read - sz'")
        case True
        with body c1 c2 show ?thesis by simp
      next
        case False
        with body c1 c2 show ?thesis by simp blast
      qed
    qed
  qed
  then consider (panic) "r = Panics"
    | (ret) e where "r = Returns (e, vol1)"
    | (again) "rd K env vol1 p' sz' (to_read - sz') = Some r"
    by blast
  then show ?case
  proof cases
    case panic
    then show ?thesis by simp
  next
    case ret
    then show ?thesis by (simp add: vol1)
  next
    case again
    show ?thesis
    proof (intro allI impI)
      fix e v
      assume "r = Returns (e, v)"
      with "1.IH" [OF again] have "LogFileEmpty v = LogFileEmpty vol1 \<and>
          data_size v = data_size vol1 \<and> heap v = heap vol1 \<and> next_buf v = next_buf vol1"
        by blast
      then show "LogFileEmpty v = LogFileEmpty vol \<and> data_size v = data_size vol \<and>
          heap v = heap vol \<and> next_buf v = next_buf vol"
        by (simp add: vol1)
    qed
  qed
qed

lemma restart_page_read_state:
  assumes "restart_page_read K env v rp p = Some (Returns (e, v'))"
  shows "LogFileEmpty v' = LogFileEmpty v \<and> data_size v' = data_size v \<and>
      heap v' = heap v \<and> next_buf v' = next_buf v"
proof (cases "PAGE_SIZE K - nat (take_bit 32 p AND int (PAGE_MASK K))
    \<ge> unat (system_page_size (rph rp))")
  case True
  with assms show ?thesis by (simp add: restart_page_read_def Let_def)
next
  case False
  with assms have "read_remaining K env v p
      (PAGE_SIZE K - nat (take_bit 32 p AND int (PAGE_MASK K)))
      (unat (system_page_size (rph rp)) -
        (PAGE_SIZE K - nat (take_bit 32 p AND int (PAGE_MASK K)))) = Some (Returns (e, v'))"
    by (simp add: restart_page_read_def Let_def)
  from read_remaining_state [OF this] show ?thesis by blast
qed

lemma errno_nonzero: "EINVAL \<noteq> 0" "ENOMEM \<noteq> 0" "EIO \<noteq> 0"
  by (simp_all add: EINVAL_def ENOMEM_def EIO_def)

lemma restart_page_finish_state:
  assumes "restart_page_finish K env v rp trp = (e, v', loaded)"
  shows "LogFileEmpty v' = LogFileEmpty v \<and> data_size v' = data_size v \<and>
      next_buf v' = next_buf v \<and> (\<forall>q. q \<noteq> trp \<longrightarrow> heap v' q = heap v q) \<and>
      (if e = 0 then (\<exists>l. loaded = Some (trp, l)) \<and> heap v' trp \<noteq> None
       else loaded = None)"
  using assms unfolding restart_page_finish_def Let_def IOFree_def
  by (auto split: if_splits simp: errno_nonzero)

lemma load_state:
  assumes "ntfs_restart_page_load K env vol rp p = Some (Returns (e, vol', loaded))"
  shows "LogFileEmpty vol' = LogFileEmpty vol \<and> data_size vol' = data_size vol \<and>
      next_buf vol \<le> next_buf vol' \<and>
      (\<forall>q. q \<noteq> next_buf vol \<longrightarrow> heap vol' q = heap vol q) \<and>
      (if e = 0 then (\<exists>l. loaded = Some (next_buf vol, l)) \<and>
          heap vol' (next_buf vol) \<noteq> None \<and> next_buf vol' = Suc (next_buf vol)
       else loaded = None)"
proof (cases "ntfs_restart_page_header_is_valid K rp p \<and> ntfs_restart_area_is_valid K rp")
  case False
  with assms have "e = EINVAL" "vol' = vol" "loaded = None"
    by (auto simp: ntfs_restart_page_load_def split: if_splits)
  then show ?thesis
    by (simp add: errno_nonzero)
next
  case valid: True
  show ?thesis
  proof (cases "IOMalloc_ok env (next_buf vol)")
    case False
    with assms valid have "e = ENOMEM" "vol' = vol\<lparr>next_buf := Suc (next_buf vol)\<rparr>"
      "loaded = None"
      by (simp_all add: ntfs_restart_page_load_def IOMalloc_def)
    then show ?thesis
      by (simp add: errno_nonzero)
  next
    case ok: True
    define trp where "trp = next_buf vol"
    define vol1 where
      "vol1 = vol\<lparr>next_buf := Suc (next_buf vol), heap := (heap vol)(trp \<mapsto> rp)\<rparr>"
    have v1: "LogFileEmpty vol1 = LogFileEmpty vol" "data_size vol1 = data_size vol"
      "next_buf vol1 = Suc (next_buf vol)" "heap vol1 = (heap vol)(trp \<mapsto> rp)"
      by (simp_all add: vol1_def)
    from assms valid ok have c:
      "(case restart_page_read K env vol1 rp p of
          None \<Rightarrow> None
        | Some Panics \<Rightarrow> Some Panics
        | Some (Returns r) \<Rightarrow>
            if fst r \<noteq> 0 then Some (Returns (fst r, IOFree trp (snd r), None))
            else Some (Returns (restart_page_finish K env (snd r) rp trp)))
       = Some (Returns (e, vol', loaded))"
      unfolding vol1_def trp_def by (simp add: ntfs_restart_page_load_def IOMalloc_def)
    then obtain e2 v2 where rd: "restart_page_read K env vol1 rp p = Some (Returns (e2, v2))"
      by (cases "restart_page_read K env vol1 rp p")
        (auto split: call.splits)
    from restart_page_read_state [OF rd]
    have v2: "LogFileEmpty v2 = LogFileEmpty vol1" "data_size v2 = data_size vol1"
      "heap v2 = heap vol1" "next_buf v2 = next_buf vol1"
      by simp_all
    show ?thesis
    proof (cases "e2 = 0")
      case False
      with c rd have "e = e2" "vol' = IOFree trp v2" "loaded = None"
        by simp_all
      then show ?thesis
        using False v1 v2 by (simp add: IOFree_def trp_def)
    next
      case True
      with c rd have "restart_page_finish K env v2 rp trp = (e, vol', loaded)"
        by simp
      from restart_page_finish_state [OF this] show ?thesis
        using v1 v2 unfolding trp_def by auto
    qed
  qed
qed

text \<open>The invariant \<open>scan_inv\<close> holds through the body of the loop and through the loop.\<close>

lemma scan_inv_pos [simp]:
  "scan_inv (v\<lparr>pos := x\<rparr>) vol = scan_inv v vol"
  "scan_inv (v\<lparr>ppos := y, upl := z\<rparr>) vol = scan_inv v vol"
  "scan_inv (next_slot K v) vol = scan_inv v vol"
  by (simp_all add: scan_inv_def next_slot_def split: option.split)

lemma scan_inv_not_empty:
  "scan_inv v vol \<Longrightarrow> scan_inv (v\<lparr>logfile_is_empty := False\<rparr>) vol"
  by (auto simp: scan_inv_def split: option.splits)

lemma scan_inv_log:
  "scan_inv v (vol\<lparr>io_log := lg\<rparr>) = scan_inv v vol"
  by (simp add: scan_inv_def split: option.split)

lemma scan_inv_found:
  assumes inv: "scan_inv v vol"
    and nb: "heap vol1 (next_buf vol) \<noteq> None" "next_buf vol1 = Suc (next_buf vol)"
    and same: "\<forall>q. q \<noteq> next_buf vol \<longrightarrow> heap vol1 q = heap vol q"
  shows "scan_inv (if rstr1 v = None
      then v\<lparr>logfile_is_empty := False, rstr1 := Some (next_buf vol, l)\<rparr>
      else v\<lparr>logfile_is_empty := False, rstr2 := Some (next_buf vol, l)\<rparr>) vol1"
proof (cases "rstr1 v")
  case None
  with inv have "rstr2 v = None"
    by (simp add: scan_inv_def)
  with None nb show ?thesis
    by (simp add: scan_inv_def)
next
  case (Some r1)
  with inv have r1: "fst r1 < next_buf vol" "heap vol (fst r1) \<noteq> None"
    by (simp_all add: scan_inv_def)
  then have "fst r1 \<noteq> next_buf vol"
    by simp
  with same r1 have "heap vol1 (fst r1) \<noteq> None"
    by simp
  with Some r1 nb show ?thesis
    by (simp add: scan_inv_def)
qed

lemma scan_inv_kept:
  assumes inv: "scan_inv v vol"
    and nb: "next_buf vol \<le> next_buf vol1"
    and same: "\<forall>q. q \<noteq> next_buf vol \<longrightarrow> heap vol1 q = heap vol q"
  shows "scan_inv v vol1"
proof (cases "rstr1 v")
  case None
  with inv show ?thesis
    by (simp add: scan_inv_def)
next
  case r1: (Some r1)
  with inv have a: "\<not> logfile_is_empty v" "fst r1 < next_buf vol" "heap vol (fst r1) \<noteq> None"
    by (simp_all add: scan_inv_def)
  then have a1: "fst r1 < next_buf vol1" "heap vol1 (fst r1) \<noteq> None"
    using nb same by auto
  show ?thesis
  proof (cases "rstr2 v")
    case None
    with r1 a a1 show ?thesis
      by (simp add: scan_inv_def)
  next
    case (Some r2)
    with inv r1 have b: "fst r2 < next_buf vol" "heap vol (fst r2) \<noteq> None"
      "fst r1 \<noteq> fst r2"
      by (simp_all add: scan_inv_def)
    then have "fst r2 < next_buf vol1" "heap vol1 (fst r2) \<noteq> None"
      using nb same by auto
    with Some r1 a a1 b show ?thesis
      by (simp add: scan_inv_def)
  qed
qed

lemma scan_loaded_inv:
  assumes ld: "ntfs_restart_page_load K env vol rp p = Some (Returns l)"
    and inv: "scan_inv v vol"
    and sl: "scan_loaded K (v\<lparr>logfile_is_empty := False\<rparr>) l = (ex, v', vol')"
  shows "scan_inv v' vol' \<and> LogFileEmpty vol' = LogFileEmpty vol \<and>
    data_size vol' = data_size vol"
proof -
  obtain e vol1 loaded where l: "l = (e, vol1, loaded)"
    by (cases l) auto
  note st = load_state [OF ld [unfolded l]]
  from st have fl: "LogFileEmpty vol1 = LogFileEmpty vol" "data_size vol1 = data_size vol"
    and mono: "next_buf vol \<le> next_buf vol1"
    and same: "\<forall>q. q \<noteq> next_buf vol \<longrightarrow> heap vol1 q = heap vol q"
    by simp_all
  have inv0: "scan_inv (v\<lparr>logfile_is_empty := False\<rparr>) vol"
    using inv by (rule scan_inv_not_empty)
  show ?thesis
  proof (cases "e = 0")
    case True
    with st obtain lsn where ld: "loaded = Some (next_buf vol, lsn)"
      and nb: "heap vol1 (next_buf vol) \<noteq> None" "next_buf vol1 = Suc (next_buf vol)"
      by auto
    define w where "w = (if rstr1 v = None
      then v\<lparr>logfile_is_empty := False, rstr1 := Some (next_buf vol, lsn)\<rparr>
      else v\<lparr>logfile_is_empty := False, rstr2 := Some (next_buf vol, lsn)\<rparr>)"
    have w: "scan_inv w vol1"
      unfolding w_def using inv nb same by (rule scan_inv_found)
    from sl True have "vol' = vol1" "v' = next_slot K w \<or> v' = w"
      by (auto simp: scan_loaded_def l ld w_def Let_def split: if_splits)
    with w fl show ?thesis
      by auto
  next
    case False
    with sl have "vol' = vol1" "v' = next_slot K (v\<lparr>logfile_is_empty := False\<rparr>) \<or>
        v' = v\<lparr>logfile_is_empty := False\<rparr>"
      by (auto simp: scan_loaded_def l Let_def split: if_splits)
    moreover have "scan_inv (v\<lparr>logfile_is_empty := False\<rparr>) vol1"
      using inv0 mono same by (rule scan_inv_kept)
    ultimately show ?thesis
      using fl by auto
  qed
qed

lemma scan_body_inv:
  assumes body: "scan_body K env v vol = Some (Returns (ex, v', vol'))"
    and inv: "scan_inv v vol"
  shows "scan_inv v' vol' \<and> LogFileEmpty vol' = LogFileEmpty vol \<and>
    data_size vol' = data_size vol"
proof -
  define remap where "remap \<longleftrightarrow> \<not> upl v \<or> pos v AND NOT (int (PAGE_MASK K)) \<noteq> ppos v"
  define err where "err = (if remap then ntfs_page_map env (pos v) else 0)"
  define vol1 where
    "vol1 = (if remap then vol\<lparr>io_log := PageMap (pos v) # io_log vol\<rparr> else vol)"
  define v1 where "v1 = (if remap then v\<lparr>ppos := pos v, upl := True\<rparr> else v)"
  define kaddr where "kaddr = journal_at env (pos v1)"
  define empty where "empty \<longleftrightarrow> ntfs_is_empty_record K (magic (rph kaddr))"
  define rcrd where "rcrd \<longleftrightarrow> ntfs_is_rcrd_record K (magic (rph kaddr))"
  define other where "other \<longleftrightarrow> \<not> ntfs_is_rstr_record K (magic (rph kaddr)) \<and>
    \<not> ntfs_is_chkd_record K (magic (rph kaddr))"
  have shape: "scan_body K env v vol =
     (if err \<noteq> 0
      then Some (Returns (Goto_err (if err \<noteq> EIO \<and> err \<noteq> ENOMEM then EIO else err),
                   v1, vol1))
      else if empty then
        if logfile_is_empty v1 then Some (Returns (Continue, next_slot K v1, vol1))
        else Some (Returns (Break, v1, vol1))
      else if rcrd
      then Some (Returns (Break, v1\<lparr>logfile_is_empty := False\<rparr>, vol1))
      else if other
      then Some (Returns (Continue, next_slot K (v1\<lparr>logfile_is_empty := False\<rparr>), vol1))
      else
        case ntfs_restart_page_load K env vol1 kaddr (pos v1) of
          None \<Rightarrow> None
        | Some Panics \<Rightarrow> Some Panics
        | Some (Returns l) \<Rightarrow>
            Some (Returns (scan_loaded K (v1\<lparr>logfile_is_empty := False\<rparr>) l)))"
    unfolding scan_body_def Let_def other_def rcrd_def empty_def kaddr_def v1_def vol1_def
      err_def remap_def
    by (rule refl)
  have fl: "LogFileEmpty vol1 = LogFileEmpty vol" "data_size vol1 = data_size vol"
    by (simp_all add: vol1_def)
  have inv1: "scan_inv v1 vol1"
    using inv by (simp add: v1_def vol1_def scan_inv_log)
  have inv1': "scan_inv (v1\<lparr>logfile_is_empty := False\<rparr>) vol1"
    using inv1 by (rule scan_inv_not_empty)
  show ?thesis
  proof (cases "err \<noteq> 0 \<or> empty \<or> rcrd \<or> other")
    case True
    with body [unfolded shape] have "vol' = vol1"
      "v' = v1 \<or> v' = next_slot K v1 \<or> v' = v1\<lparr>logfile_is_empty := False\<rparr> \<or>
       v' = next_slot K (v1\<lparr>logfile_is_empty := False\<rparr>)"
      by (auto split: if_splits)
    with inv1 inv1' fl show ?thesis
      by auto
  next
    case False
    with body [unfolded shape] have c:
      "(case ntfs_restart_page_load K env vol1 kaddr (pos v1) of
          None \<Rightarrow> None
        | Some Panics \<Rightarrow> Some Panics
        | Some (Returns l) \<Rightarrow>
            Some (Returns (scan_loaded K (v1\<lparr>logfile_is_empty := False\<rparr>) l)))
       = Some (Returns (ex, v', vol'))"
      by simp
    then obtain l where ld: "ntfs_restart_page_load K env vol1 kaddr (pos v1) = Some (Returns l)"
      by (cases "ntfs_restart_page_load K env vol1 kaddr (pos v1)")
        (auto split: call.splits)
    with c have "scan_loaded K (v1\<lparr>logfile_is_empty := False\<rparr>) l = (ex, v', vol')"
      by simp
    from scan_loaded_inv [OF ld inv1 this] fl show ?thesis
      by simp
  qed
qed

lemma scan_loop_inv:
  assumes "scan_loop K env sz v vol = Some r"
  shows "\<forall>ex v' vol'. r = Returns (ex, v', vol') \<longrightarrow> scan_inv v vol \<longrightarrow>
    scan_inv v' vol' \<and> LogFileEmpty vol' = LogFileEmpty vol \<and>
    data_size vol' = data_size vol \<and> ex \<noteq> Continue"
  using assms
proof (induction rule: scan_loop.raw_induct [rotated 1, consumes 1])
  case (1 loop K env sz v vol r)
  show ?case
  proof (intro allI impI)
    fix ex v' vol'
    assume r: "r = Returns (ex, v', vol')" and inv: "scan_inv v vol"
    show "scan_inv v' vol' \<and> LogFileEmpty vol' = LogFileEmpty vol \<and>
      data_size vol' = data_size vol \<and> ex \<noteq> Continue"
    proof (cases "pos v < sz")
      case False
      with "1.hyps" r inv show ?thesis
        by simp
    next
      case True
      with "1.hyps" have c:
        "(case scan_body K env v vol of
            None \<Rightarrow> None
          | Some Panics \<Rightarrow> Some Panics
          | Some (Returns b) \<Rightarrow>
              if fst b = Continue
              then loop K env sz ((fst (snd b))\<lparr>pos := 2 * pos (fst (snd b))\<rparr>) (snd (snd b))
              else Some (Returns b)) = Some r"
        by simp
      with r obtain b where b: "scan_body K env v vol = Some (Returns b)"
        by (cases "scan_body K env v vol") (auto split: call.splits)
      obtain bx bv bvol where bb: "b = (bx, bv, bvol)"
        by (cases b) auto
      from scan_body_inv [OF b [unfolded bb] inv]
      have binv: "scan_inv bv bvol" and bfl: "LogFileEmpty bvol = LogFileEmpty vol"
        "data_size bvol = data_size vol"
        by simp_all
      show ?thesis
      proof (cases "bx = Continue")
        case False
        with c b bb r have "ex = bx" "v' = bv" "vol' = bvol"
          by simp_all
        with binv bfl False show ?thesis
          by simp
      next
        case True
        with c b bb have "loop K env sz (bv\<lparr>pos := 2 * pos bv\<rparr>) bvol = Some r"
          by simp
        from "1.IH" [OF this] r have "scan_inv (bv\<lparr>pos := 2 * pos bv\<rparr>) bvol \<longrightarrow>
          scan_inv v' vol' \<and> LogFileEmpty vol' = LogFileEmpty bvol \<and>
          data_size vol' = data_size bvol \<and> ex \<noteq> Continue"
          by blast
        with binv bfl show ?thesis
          by simp
      qed
    qed
  qed
qed

lemma scan_inv_init:
  "scan_inv \<lparr>pos = 0, ppos = 0, upl = False, logfile_is_empty = True,
     rstr1 = None, rstr2 = None\<rparr> vol"
  by (simp add: scan_inv_def)

text \<open>
  While the loop goes on, no second page is held, and a first page is only held at a
  position other than 0; so a second page is only ever found by the run of the body that
  leaves the loop with \<open>break\<close>. This needs \<open>NTFS_BLOCK_SIZE / 2\<close> not to be 0.
\<close>

lemma next_slot_pos:
  "2 \<le> NTFS_BLOCK_SIZE K \<Longrightarrow> pos (next_slot K v) \<noteq> 0"
  "rstr1 (next_slot K v) = rstr1 v" "rstr2 (next_slot K v) = rstr2 v"
  by (auto simp: next_slot_def)

lemma scan_loaded_second:
  assumes sl: "scan_loaded K w l = (ex, v', vol')"
    and head: "rstr2 w = None" "rstr1 w \<noteq> None \<longrightarrow> pos w \<noteq> 0"
    and blk: "2 \<le> NTFS_BLOCK_SIZE K"
  shows "(ex \<noteq> Break \<longrightarrow> rstr2 v' = None) \<and> (ex = Continue \<longrightarrow> pos v' \<noteq> 0)"
proof (cases "fst l = 0")
  case False
  with sl have "v' = w \<or> v' = next_slot K w" "ex = Continue \<longrightarrow> v' = next_slot K w"
    by (auto simp: scan_loaded_def Let_def split: if_splits)
  with head blk show ?thesis
    by (auto simp: next_slot_pos)
next
  case ok: True
  show ?thesis
  proof (cases "rstr1 w = None")
    case True
    with sl ok have "v' = w\<lparr>rstr1 := snd (snd l)\<rparr> \<or>
        v' = next_slot K (w\<lparr>rstr1 := snd (snd l)\<rparr>)"
      "ex = Continue \<longrightarrow> v' = next_slot K (w\<lparr>rstr1 := snd (snd l)\<rparr>)"
      by (auto simp: scan_loaded_def Let_def split: if_splits)
    with head blk show ?thesis
      by (auto simp: next_slot_pos)
  next
    case False
    with head have "pos w \<noteq> 0"
      by simp
    with sl ok False have "ex = Break"
      by (simp add: scan_loaded_def Let_def)
    then show ?thesis
      by simp
  qed
qed

lemma scan_body_second:
  assumes body: "scan_body K env v vol = Some (Returns (ex, v', vol'))"
    and head: "rstr2 v = None" "rstr1 v \<noteq> None \<longrightarrow> pos v \<noteq> 0"
    and blk: "2 \<le> NTFS_BLOCK_SIZE K"
  shows "(ex \<noteq> Break \<longrightarrow> rstr2 v' = None) \<and> (ex = Continue \<longrightarrow> pos v' \<noteq> 0)"
proof -
  define remap where "remap \<longleftrightarrow> \<not> upl v \<or> pos v AND NOT (int (PAGE_MASK K)) \<noteq> ppos v"
  define err where "err = (if remap then ntfs_page_map env (pos v) else 0)"
  define vol1 where
    "vol1 = (if remap then vol\<lparr>io_log := PageMap (pos v) # io_log vol\<rparr> else vol)"
  define v1 where "v1 = (if remap then v\<lparr>ppos := pos v, upl := True\<rparr> else v)"
  define kaddr where "kaddr = journal_at env (pos v1)"
  define empty where "empty \<longleftrightarrow> ntfs_is_empty_record K (magic (rph kaddr))"
  define rcrd where "rcrd \<longleftrightarrow> ntfs_is_rcrd_record K (magic (rph kaddr))"
  define other where "other \<longleftrightarrow> \<not> ntfs_is_rstr_record K (magic (rph kaddr)) \<and>
    \<not> ntfs_is_chkd_record K (magic (rph kaddr))"
  have shape: "scan_body K env v vol =
     (if err \<noteq> 0
      then Some (Returns (Goto_err (if err \<noteq> EIO \<and> err \<noteq> ENOMEM then EIO else err),
                   v1, vol1))
      else if empty then
        if logfile_is_empty v1 then Some (Returns (Continue, next_slot K v1, vol1))
        else Some (Returns (Break, v1, vol1))
      else if rcrd
      then Some (Returns (Break, v1\<lparr>logfile_is_empty := False\<rparr>, vol1))
      else if other
      then Some (Returns (Continue, next_slot K (v1\<lparr>logfile_is_empty := False\<rparr>), vol1))
      else
        case ntfs_restart_page_load K env vol1 kaddr (pos v1) of
          None \<Rightarrow> None
        | Some Panics \<Rightarrow> Some Panics
        | Some (Returns l) \<Rightarrow>
            Some (Returns (scan_loaded K (v1\<lparr>logfile_is_empty := False\<rparr>) l)))"
    unfolding scan_body_def Let_def other_def rcrd_def empty_def kaddr_def v1_def vol1_def
      err_def remap_def
    by (rule refl)
  have h1: "rstr2 v1 = None" "rstr1 v1 \<noteq> None \<longrightarrow> pos v1 \<noteq> 0"
    using head by (simp_all add: v1_def)
  show ?thesis
  proof (cases "err \<noteq> 0 \<or> empty \<or> rcrd \<or> other")
    case True
    with body [unfolded shape] have a:
      "v' = v1 \<or> v' = next_slot K v1 \<or> v' = v1\<lparr>logfile_is_empty := False\<rparr> \<or>
       v' = next_slot K (v1\<lparr>logfile_is_empty := False\<rparr>)"
      and b: "ex = Continue \<longrightarrow> v' = next_slot K v1 \<or>
         v' = next_slot K (v1\<lparr>logfile_is_empty := False\<rparr>)"
      by (auto split: if_splits)
    from a h1 have "rstr2 v' = None"
      by (auto simp: next_slot_pos)
    moreover from b blk have "ex = Continue \<longrightarrow> pos v' \<noteq> 0"
      by (auto simp: next_slot_pos)
    ultimately show ?thesis
      by simp
  next
    case False
    with body [unfolded shape] have c:
      "(case ntfs_restart_page_load K env vol1 kaddr (pos v1) of
          None \<Rightarrow> None
        | Some Panics \<Rightarrow> Some Panics
        | Some (Returns l) \<Rightarrow>
            Some (Returns (scan_loaded K (v1\<lparr>logfile_is_empty := False\<rparr>) l)))
       = Some (Returns (ex, v', vol'))"
      by simp
    then obtain l where ld: "ntfs_restart_page_load K env vol1 kaddr (pos v1) = Some (Returns l)"
      by (cases "ntfs_restart_page_load K env vol1 kaddr (pos v1)")
        (auto split: call.splits)
    with c have "scan_loaded K (v1\<lparr>logfile_is_empty := False\<rparr>) l = (ex, v', vol')"
      by simp
    from scan_loaded_second [OF this _ _ blk] h1 show ?thesis
      by simp
  qed
qed

lemma scan_loop_second:
  assumes "scan_loop K env sz v vol = Some r"
  shows "\<forall>ex v' vol'. r = Returns (ex, v', vol') \<longrightarrow>
    rstr2 v = None \<and> (rstr1 v \<noteq> None \<longrightarrow> pos v \<noteq> 0) \<longrightarrow> 2 \<le> NTFS_BLOCK_SIZE K \<longrightarrow>
    ex \<noteq> Break \<longrightarrow> rstr2 v' = None"
  using assms
proof (induction rule: scan_loop.raw_induct [rotated 1, consumes 1])
  case (1 loop K env sz v vol r)
  show ?case
  proof (intro allI impI)
    fix ex v' vol'
    assume r: "r = Returns (ex, v', vol')"
      and head: "rstr2 v = None \<and> (rstr1 v \<noteq> None \<longrightarrow> pos v \<noteq> 0)"
      and blk: "2 \<le> NTFS_BLOCK_SIZE K" and ex: "ex \<noteq> Break"
    show "rstr2 v' = None"
    proof (cases "pos v < sz")
      case False
      with "1.hyps" r ex show ?thesis
        by simp
    next
      case True
      with "1.hyps" have c:
        "(case scan_body K env v vol of
            None \<Rightarrow> None
          | Some Panics \<Rightarrow> Some Panics
          | Some (Returns b) \<Rightarrow>
              if fst b = Continue
              then loop K env sz ((fst (snd b))\<lparr>pos := 2 * pos (fst (snd b))\<rparr>) (snd (snd b))
              else Some (Returns b)) = Some r"
        by simp
      with r obtain b where b: "scan_body K env v vol = Some (Returns b)"
        by (cases "scan_body K env v vol") (auto split: call.splits)
      obtain bx bv bvol where bb: "b = (bx, bv, bvol)"
        by (cases b) auto
      from head have h1: "rstr2 v = None" and h2: "rstr1 v \<noteq> None \<longrightarrow> pos v \<noteq> 0"
        by simp_all
      note bs = scan_body_second [OF b [unfolded bb] h1 h2 blk]
      show ?thesis
      proof (cases "bx = Continue")
        case False
        with c b bb r have "ex = bx" "v' = bv"
          by simp_all
        with bs ex show ?thesis
          by simp
      next
        case True
        with c b bb have "loop K env sz (bv\<lparr>pos := 2 * pos bv\<rparr>) bvol = Some r"
          by simp
        from "1.IH" [OF this] r blk ex
        have "rstr2 (bv\<lparr>pos := 2 * pos bv\<rparr>) = None \<and>
            (rstr1 (bv\<lparr>pos := 2 * pos bv\<rparr>) \<noteq> None \<longrightarrow> pos (bv\<lparr>pos := 2 * pos bv\<rparr>) \<noteq> 0)
            \<longrightarrow> rstr2 v' = None"
          by blast
        with bs True show ?thesis
          by simp
      qed
    qed
  qed
qed

subsection \<open>The size test\<close>

text \<open>
  When the log page size is a power of two, the truncated size is a multiple of it, and
  the test of the source says that the journal holds fewer pages than two restart pages
  and \<open>NtfsMinLogRecordPages\<close> record pages.
\<close>

lemma ffs_pow2: "ffs (2 ^ k) = Suc k"
proof (induction k)
  case 0
  show ?case by (simp add: ffs.simps)
next
  case (Suc k)
  have "ffs (2 ^ Suc k) = Suc (ffs (2 ^ Suc k div 2))"
    by (subst ffs.simps) simp
  then show ?case
    using Suc by simp
qed





subsection \<open>The functions on the concrete journals\<close>

lemma ntfs_k_simps:
  "NTFS_BLOCK_SIZE ntfs_k = 512" "PAGE_SIZE ntfs_k = 4096" "PAGE_MASK ntfs_k = 4095"
  "NtfsDefaultLogPageSize ntfs_k = 4096" "NtfsMaxLogFileSize ntfs_k = 4294967296"
  "NtfsMinLogRecordPages ntfs_k = 48" "LOGFILE_NO_CLIENT ntfs_k = 0xffff"
  "ntfs_is_rstr_record ntfs_k m \<longleftrightarrow> m = 0x52545352"
  "ntfs_is_chkd_record ntfs_k m \<longleftrightarrow> m = 0x444b4843"
  "ntfs_is_rcrd_record ntfs_k m \<longleftrightarrow> m = 0x44524352"
  "ntfs_is_empty_record ntfs_k m \<longleftrightarrow> m = 0xffffffff"
  by (simp_all add: ntfs_k_def PAGE_MASK_def ntfs_is_rstr_record_def ntfs_is_chkd_record_def
      ntfs_is_rcrd_record_def ntfs_is_empty_record_def)

lemma ex_page_simps:
  "magic (rph ex_page) = 0x52545352" "usa_count (rph ex_page) = 9"
  "system_page_size (rph ex_page) = 4096" "restart_area_offset (rph ex_page) = 48"
  "restart_area_length (ra ex_page) = 224" "client_in_use_list (ra ex_page) = 0"
  "current_lsn (ra ex_page) = 100"
  "magic (rph ex_page2) = 0x52545352" "usa_count (rph ex_page2) = 9"
  "system_page_size (rph ex_page2) = 4096" "restart_area_offset (rph ex_page2) = 48"
  "restart_area_length (ra ex_page2) = 224" "client_in_use_list (ra ex_page2) = 0"
  "current_lsn (ra ex_page2) = 105"
  "magic (rph ex_filler) = 0"
  by (simp_all add: ex_page_def ex_page2_def ex_filler_def)

lemma ex_env_simps:
  "vnode_get ex_env = 0" "ntfs_page_map ex_env p = 0"
  "journal_at ex_env p = (if p = 0 then ex_page else if p = 4096 then ex_page2
                          else ex_filler)"
  "ntfs_mst_fixup_post_read ex_env buf n = (False, buf)" "IOMalloc_ok ex_env k"
  by (simp_all add: ex_env_def)

lemma ex_page_valid:
  "ntfs_restart_page_header_is_valid ntfs_k ex_page 0"
  "ntfs_restart_page_header_is_valid ntfs_k ex_page2 4096"
  "ntfs_restart_area_is_valid ntfs_k ex_page"
  "ntfs_restart_area_is_valid ntfs_k ex_page2"
  "ntfs_log_client_array_is_consistent ntfs_k ex_page"
  "ntfs_log_client_array_is_consistent ntfs_k ex_page2"
  by (simp_all add: ntfs_restart_page_header_is_valid_def ntfs_restart_area_is_valid_def
      ntfs_log_client_array_is_consistent_def check_list.simps
      ex_page_def ex_page2_def ntfs_k_def Let_def ntfs_is_chkd_record_def
      seq_number_bits_consistent_def fs_bits_loop_bitlen bitlen_ex)

lemma ex_load_first:
  "next_buf vol = 0 \<Longrightarrow> ntfs_restart_page_load ntfs_k ex_env vol ex_page 0 =
     Some (Returns (0, vol\<lparr>next_buf := 1, heap := (heap vol)(0 \<mapsto> ex_page)\<rparr>, Some (0, 100)))"
  by (simp add: ntfs_restart_page_load_def restart_page_read_def restart_page_finish_def
      restart_page_deprotect_def IOMalloc_def Let_def ex_page_valid ntfs_k_simps
      ex_page_simps ex_env_simps)

lemma ex_load_second:
  "next_buf vol = 1 \<Longrightarrow> ntfs_restart_page_load ntfs_k ex_env vol ex_page2 4096 =
     Some (Returns (0, vol\<lparr>next_buf := 2, heap := (heap vol)(1 \<mapsto> ex_page2)\<rparr>, Some (1, 105)))"
  by (simp add: ntfs_restart_page_load_def restart_page_read_def restart_page_finish_def
      restart_page_deprotect_def IOMalloc_def Let_def ex_page_valid ntfs_k_simps
      ex_page_simps ex_env_simps)

lemma ex_usable: "usable_size ntfs_k ex_vol = 4194304"
  by (simp add: usable_size_def log_page_size_of_def ntfs_k_simps ex_vol_def)

lemma ex_ffs: "ffs 4096 = 13"
  using ffs_pow2 [of 12] by simp

lemma ex_not_small: "\<not> logfile_too_small ntfs_k 4194304"
  by (simp add: logfile_too_small_def log_page_size_of_def ntfs_k_simps ex_ffs)

lemma ex_scan:
  "scan_loop ntfs_k ex_env 4194304
     \<lparr>pos = 0, ppos = 0, upl = False, logfile_is_empty = True, rstr1 = None, rstr2 = None\<rparr>
     ex_vol =
   Some (Returns (Break,
     \<lparr>pos = 4096, ppos = 4096, upl = True, logfile_is_empty = False,
      rstr1 = Some (0, 100), rstr2 = Some (1, 105)\<rparr>, ex_scanned))"
  by (simp add: scan_loop.simps scan_body_def scan_loaded_def next_slot_def Let_def
      ex_load_first ex_load_second ntfs_k_simps ex_page_simps ex_env_simps ex_vol_def
      ex_scanned_def)

lemma ex_vol_simps:
  "\<not> NVolLogFileEmpty ex_vol" "\<not> NVolLogFileEmpty ex_small" "\<not> NVolLogFileEmpty ex_vol_min"
  "NVolLogFileEmpty ex_wiped" "NVolLogFileEmpty (ex_small\<lparr>LogFileEmpty := True\<rparr>)"
  "usable_size ntfs_k ex_small = 65536"
  "usable_size ntfs_k (ex_small\<lparr>LogFileEmpty := True\<rparr>) = 65536"
  "usable_size ntfs_k ex_vol_min = 204800"
  "log_page_size_of ntfs_k = 4096"
  by (simp_all add: NVolLogFileEmpty_def usable_size_def log_page_size_of_def ntfs_k_simps
      ex_vol_def ex_small_def ex_vol_min_def ex_wiped_def)

lemma ex_blank_scan:
  "scan_loop ntfs_k ex_env_blank 204800
     \<lparr>pos = 0, ppos = 0, upl = False, logfile_is_empty = True, rstr1 = None, rstr2 = None\<rparr>
     ex_vol_min =
   Some (Returns (Break,
     \<lparr>pos = 262144, ppos = 131072, upl = True, logfile_is_empty = True, rstr1 = None,
      rstr2 = None\<rparr>, ex_blank_scanned))"
  by (simp add: scan_loop.simps scan_body_def next_slot_def Let_def ntfs_k_simps
      ex_env_blank_def ex_env_def ex_page_def ex_vol_min_def ex_vol_def ex_blank_scanned_def)

lemma ex_blank_check:
  "ntfs_logfile_check ntfs_k ex_env_blank ex_vol_min True =
     Some (Returns (0, None, NVolSetLogFileEmpty ex_blank_scanned))"
proof -
  have "\<not> logfile_too_small ntfs_k 204800"
    by (simp add: logfile_too_small_def log_page_size_of_def ntfs_k_simps ex_ffs)
  moreover have "vnode_get ex_env_blank = 0"
    by (simp add: ex_env_blank_def ex_env_def)
  ultimately show ?thesis
    by (simp add: ntfs_logfile_check_def ex_vol_simps ex_blank_scan logfile_check_finish_def)
qed

subsection \<open>The choice between two restart pages\<close>

text \<open>
  In the state left by the scan, what follows the loop keeps one page and frees the
  other; the check as a whole is the scan followed by that.
\<close>

lemma logfile_check_finish_flag:
  assumes "logfile_check_finish g ex v vs = Returns (e, out, vol')"
  shows "LogFileEmpty vol' = LogFileEmpty vs \<or> (e = 0 \<and> out = None \<and> LogFileEmpty vol')"
  using assms
  by (auto simp: logfile_check_finish_def keep_more_recent_def IOFree_def
      NVolSetLogFileEmpty_def split: loop_exit.splits option.splits if_splits)

lemma check_flag:
  assumes chk: "ntfs_logfile_check K env vol g = Some (Returns (e, out, vol'))"
  shows "LogFileEmpty vol' = LogFileEmpty vol \<or> (e = 0 \<and> out = None \<and> LogFileEmpty vol')"
proof (cases "NVolLogFileEmpty vol \<or> vnode_get env \<noteq> 0 \<or>
    logfile_too_small K (usable_size K vol)")
  case True
  with chk have "vol' = vol"
    by (auto simp: ntfs_logfile_check_def split: if_splits)
  then show ?thesis
    by simp
next
  case False
  with chk have c: "(case scan_loop K env (usable_size K vol)
               \<lparr>pos = 0, ppos = 0, upl = False, logfile_is_empty = True,
                rstr1 = None, rstr2 = None\<rparr> vol of
          None \<Rightarrow> None
        | Some Panics \<Rightarrow> Some Panics
        | Some (Returns r) \<Rightarrow>
            Some (logfile_check_finish g (fst r) (fst (snd r)) (snd (snd r))))
      = Some (Returns (e, out, vol'))"
    by (simp add: ntfs_logfile_check_def)
  then obtain r where sc: "scan_loop K env (usable_size K vol)
               \<lparr>pos = 0, ppos = 0, upl = False, logfile_is_empty = True,
                rstr1 = None, rstr2 = None\<rparr> vol = Some (Returns r)"
    by (cases "scan_loop K env (usable_size K vol)
               \<lparr>pos = 0, ppos = 0, upl = False, logfile_is_empty = True,
                rstr1 = None, rstr2 = None\<rparr> vol") (auto split: call.splits)
  obtain ex v vs where r: "r = (ex, v, vs)"
    by (cases r) auto
  from scan_loop_inv [OF sc] r scan_inv_init [of vol] have "LogFileEmpty vs = LogFileEmpty vol"
    by blast
  moreover from c sc r have "logfile_check_finish g ex v vs = Returns (e, out, vol')"
    by simp
  from logfile_check_finish_flag [OF this]
  have "LogFileEmpty vol' = LogFileEmpty vs \<or> (e = 0 \<and> out = None \<and> LogFileEmpty vol')" .
  ultimately show ?thesis
    by simp
qed

lemma logfile_empty_sets_flag:
  assumes "ntfs_logfile_empty env vol = (0, vol')"
  shows "NVolLogFileEmpty vol'"
  using assms
  by (auto simp: ntfs_logfile_empty_def NVolLogFileEmpty_def NVolSetLogFileEmpty_def Let_def
      split: if_splits)

text \<open>
  C2. Whenever \<open>ntfs_logfile_check\<close> runs its scan and the scan ends having found two
  restart pages, with LSNs \<open>l1\<close> (first found) and \<open>l2\<close> (second found), the check
  returns success; the page it hands out is the second one exactly when \<open>l2\<close> is
  greater than \<open>l1\<close> as signed values, and the first one otherwise, in particular when
  they are equal. The two pages are two buffers; the buffer of the other page is freed,
  and the buffer of the page handed out is not. When the caller passes no \<open>rp\<close>, both
  buffers are freed.
\<close>

theorem check_keeps_more_recent:
  assumes run: "\<not> NVolLogFileEmpty vol" "vnode_get env = 0"
      "\<not> logfile_too_small K (usable_size K vol)"
    and blk: "2 \<le> NTFS_BLOCK_SIZE K"
    and scan: "scan_loop K env (usable_size K vol)
        \<lparr>pos = 0, ppos = 0, upl = False, logfile_is_empty = True,
         rstr1 = None, rstr2 = None\<rparr> vol = Some (Returns (ex, v, vol'))"
    and found: "rstr1 v = Some (p1, l1)" "rstr2 v = Some (p2, l2)"
  shows "p1 \<noteq> p2 \<and>
    ntfs_logfile_check K env vol True =
      Some (Returns (0, Some (if sint l1 < sint l2 then p2 else p1),
        IOFree (if sint l1 < sint l2 then p1 else p2) vol')) \<and>
    heap (IOFree (if sint l1 < sint l2 then p1 else p2) vol')
      (if sint l1 < sint l2 then p1 else p2) = None \<and>
    heap (IOFree (if sint l1 < sint l2 then p1 else p2) vol')
      (if sint l1 < sint l2 then p2 else p1) \<noteq> None \<and>
    ntfs_logfile_check K env vol False =
      Some (Returns (0, None, IOFree (if sint l1 < sint l2 then p2 else p1)
        (IOFree (if sint l1 < sint l2 then p1 else p2) vol')))"
proof -
  from scan_loop_inv [OF scan] scan_inv_init [of vol]
  have inv: "scan_inv v vol'" and nc: "ex \<noteq> Continue"
    by blast+
  from inv found have ne: "\<not> logfile_is_empty v" and d: "p1 \<noteq> p2"
    and h: "heap vol' p1 \<noteq> None" "heap vol' p2 \<noteq> None"
    by (simp_all add: scan_inv_def)
  have "ex = Break"
  proof (rule ccontr)
    assume "ex \<noteq> Break"
    with scan_loop_second [OF scan] blk have "rstr2 v = None"
      by simp
    with found show False
      by simp
  qed
  then have fin: "logfile_check_finish g ex v vol' =
      (if g then Returns (0, Some (fst (keep_more_recent (p1, l1) (Some (p2, l2)) vol')),
                  snd (keep_more_recent (p1, l1) (Some (p2, l2)) vol'))
       else Returns (0, None, IOFree (fst (keep_more_recent (p1, l1) (Some (p2, l2)) vol'))
                  (snd (keep_more_recent (p1, l1) (Some (p2, l2)) vol'))))" for g
    using ne found by (simp add: logfile_check_finish_def)
  have keep: "keep_more_recent (p1, l1) (Some (p2, l2)) vol' =
      (if sint l1 < sint l2 then p2 else p1, IOFree (if sint l1 < sint l2 then p1 else p2) vol')"
    by (simp add: keep_more_recent_def)
  have chk: "ntfs_logfile_check K env vol g = Some (logfile_check_finish g ex v vol')" for g
    using run scan by (simp add: ntfs_logfile_check_def)
  show ?thesis
    using d h by (simp add: chk fin keep IOFree_def)
qed

theorem check_keeps_more_recent_witness:
  "\<not> NVolLogFileEmpty ex_vol \<and> vnode_get ex_env = 0 \<and>
   \<not> logfile_too_small ntfs_k (usable_size ntfs_k ex_vol) \<and> 2 \<le> NTFS_BLOCK_SIZE ntfs_k \<and>
   scan_loop ntfs_k ex_env (usable_size ntfs_k ex_vol)
     \<lparr>pos = 0, ppos = 0, upl = False, logfile_is_empty = True, rstr1 = None, rstr2 = None\<rparr>
     ex_vol =
     Some (Returns (Break,
       \<lparr>pos = 4096, ppos = 4096, upl = True, logfile_is_empty = False,
        rstr1 = Some (0, 100), rstr2 = Some (1, 105)\<rparr>, ex_scanned)) \<and>
   ntfs_logfile_check ntfs_k ex_env ex_vol True =
     Some (Returns (0, Some 1, IOFree 0 ex_scanned)) \<and>
   heap (IOFree 0 ex_scanned) 0 = None \<and> heap (IOFree 0 ex_scanned) 1 \<noteq> None"
proof -
  have a: "\<not> NVolLogFileEmpty ex_vol" "vnode_get ex_env = 0"
    "\<not> logfile_too_small ntfs_k (usable_size ntfs_k ex_vol)" "2 \<le> NTFS_BLOCK_SIZE ntfs_k"
    by (simp_all add: ex_vol_simps ex_env_simps ex_usable ex_not_small ntfs_k_simps)
  have s: "scan_loop ntfs_k ex_env (usable_size ntfs_k ex_vol)
     \<lparr>pos = 0, ppos = 0, upl = False, logfile_is_empty = True, rstr1 = None, rstr2 = None\<rparr>
     ex_vol =
     Some (Returns (Break,
       \<lparr>pos = 4096, ppos = 4096, upl = True, logfile_is_empty = False,
        rstr1 = Some (0, 100), rstr2 = Some (1, 105)\<rparr>, ex_scanned))"
    by (simp add: ex_usable ex_scan)
  have f: "rstr1 \<lparr>pos = 4096, ppos = 4096, upl = True, logfile_is_empty = False,
        rstr1 = Some (0, 100), rstr2 = Some (1, 105 :: LSN)\<rparr> = Some (0, 100)"
    "rstr2 \<lparr>pos = 4096, ppos = 4096, upl = True, logfile_is_empty = False,
        rstr1 = Some (0, 100 :: LSN), rstr2 = Some (1, 105)\<rparr> = Some (1, 105)"
    by simp_all
  from check_keeps_more_recent [OF a s f] a s show ?thesis
    by simp
qed

subsection \<open>Emptying the journal\<close>

text \<open>
  C6, as the code has it. \<open>ntfs_logfile_empty\<close> returns success and changes nothing
  when the journal is already marked empty. Otherwise it first takes a reference on the
  vnode; if that fails, the error is returned unchanged, nothing is written and the flag
  stays unset. If it succeeds, \<open>ntfs_attr_set\<close> is called once, for the whole extent
  from 0 to \<open>data_size\<close> with the byte \<open>0xff\<close>; its result is returned unchanged, the
  flag is set exactly when it is 0, and nothing else of the state changes but the record
  of that call.
\<close>

theorem logfile_empty_behaviour:
  "(NVolLogFileEmpty vol \<longrightarrow> ntfs_logfile_empty env vol = (0, vol)) \<and>
   (\<not> NVolLogFileEmpty vol \<and> vnode_get env \<noteq> 0 \<longrightarrow>
      ntfs_logfile_empty env vol = (vnode_get env, vol)) \<and>
   (\<not> NVolLogFileEmpty vol \<and> vnode_get env = 0 \<longrightarrow>
      ntfs_logfile_empty env vol =
        (ntfs_attr_set env 0 (data_size vol) 0xff,
         vol\<lparr>LogFileEmpty := (ntfs_attr_set env 0 (data_size vol) 0xff = 0),
             io_log := AttrSet 0 (data_size vol) 0xff # io_log vol\<rparr>))"
  by (simp add: ntfs_logfile_empty_def NVolLogFileEmpty_def NVolSetLogFileEmpty_def Let_def)

theorem logfile_empty_behaviour_witness:
  "NVolLogFileEmpty ex_wiped \<and> ntfs_logfile_empty ex_env ex_wiped = (0, ex_wiped) \<and>
   \<not> NVolLogFileEmpty ex_vol \<and> vnode_get ex_env_novnode \<noteq> 0 \<and>
   ntfs_logfile_empty ex_env_novnode ex_vol = (2, ex_vol) \<and>
   vnode_get ex_env = 0 \<and> ntfs_logfile_empty ex_env ex_vol = (0, ex_wiped)"
  using logfile_empty_behaviour [of ex_wiped ex_env]
    logfile_empty_behaviour [of ex_vol ex_env_novnode]
    logfile_empty_behaviour [of ex_vol ex_env]
  by (simp add: ex_vol_simps ex_env_simps ex_env_novnode_def)
    (simp add: ex_env_def ex_vol_def ex_wiped_def)

text \<open>
  C6 as stated fails where it says that a journal not marked empty is overwritten: when
  \<open>vnode_get\<close> fails (here with \<open>ENOENT\<close>), the function returns that error and
  \<open>ntfs_attr_set\<close> is never called.
\<close>

theorem logfile_empty_counterexample:
  "\<not> NVolLogFileEmpty ex_vol \<and>
   ntfs_logfile_empty ex_env_novnode ex_vol = (2, ex_vol) \<and>
   io_log (snd (ntfs_logfile_empty ex_env_novnode ex_vol)) = []"
  by (simp add: ntfs_logfile_empty_def NVolLogFileEmpty_def ex_env_novnode_def ex_env_def
      ex_vol_def)

text \<open>
  C7. After a successful \<open>ntfs_logfile_empty\<close>, \<open>ntfs_logfile_check\<close> returns success
  with \<open>*rp\<close> set to \<open>NULL\<close>, whatever the journal holds and whatever the collaborators
  would answer; the state it returns is the state it was given, so no page was mapped.
\<close>

theorem empty_then_check:
  assumes "ntfs_logfile_empty env vol = (0, vol')"
  shows "ntfs_logfile_check K env' vol' rp_given = Some (Returns (0, None, vol'))"
  using logfile_empty_sets_flag [OF assms] by (simp add: ntfs_logfile_check_def)

theorem empty_then_check_witness:
  "ntfs_logfile_empty ex_env ex_vol = (0, ex_wiped) \<and>
   ntfs_logfile_check ntfs_k ex_env ex_wiped True = Some (Returns (0, None, ex_wiped)) \<and>
   io_log ex_wiped = [AttrSet 0 4194304 0xff]"
proof -
  have e: "ntfs_logfile_empty ex_env ex_vol = (0, ex_wiped)"
    by (simp add: ntfs_logfile_empty_def NVolLogFileEmpty_def NVolSetLogFileEmpty_def Let_def
        ex_env_def ex_vol_def ex_wiped_def)
  from empty_then_check [OF e, of ntfs_k ex_env True] e show ?thesis
    by (simp add: ex_wiped_def)
qed

subsection \<open>A journal that is too small\<close>




subsection \<open>The flag only ever gets set\<close>

lemma logfile_check_finish_empty:
  assumes "logfile_check_finish g ex v vs = Returns (e, out, vol')"
    and "ex \<noteq> Continue" and "\<not> LogFileEmpty vs"
  shows "LogFileEmpty vol' \<longleftrightarrow> ex = Break \<and> logfile_is_empty v"
  using assms
  by (auto simp: logfile_check_finish_def keep_more_recent_def IOFree_def
      NVolSetLogFileEmpty_def split: loop_exit.splits option.splits if_splits)

lemma check_scan_empty:
  assumes "\<not> NVolLogFileEmpty vol" and "vnode_get env = 0"
    and "\<not> logfile_too_small K (usable_size K vol)"
    and "scan_loop K env (usable_size K vol)
           \<lparr>pos = 0, ppos = 0, upl = False, logfile_is_empty = True,
            rstr1 = None, rstr2 = None\<rparr> vol = Some (Returns (Break, v, vs))"
    and "logfile_is_empty v"
  shows "ntfs_logfile_check K env vol g = Some (Returns (0, None, NVolSetLogFileEmpty vs))"
  using assms by (simp add: ntfs_logfile_check_def logfile_check_finish_def)

lemma check_sets_flag_iff:
  assumes chk: "ntfs_logfile_check K env vol g = Some (Returns (e, out, vol'))"
    and unset: "\<not> NVolLogFileEmpty vol"
  shows "NVolLogFileEmpty vol' \<longleftrightarrow>
    vnode_get env = 0 \<and> \<not> logfile_too_small K (usable_size K vol) \<and>
    (\<exists>v vs. scan_loop K env (usable_size K vol)
               \<lparr>pos = 0, ppos = 0, upl = False, logfile_is_empty = True,
                rstr1 = None, rstr2 = None\<rparr> vol = Some (Returns (Break, v, vs)) \<and>
            logfile_is_empty v)"
proof (cases "vnode_get env \<noteq> 0 \<or> logfile_too_small K (usable_size K vol)")
  case True
  with chk unset have "vol' = vol"
    by (auto simp: ntfs_logfile_check_def split: if_splits)
  with True unset show ?thesis
    by auto
next
  case False
  with chk unset have c: "(case scan_loop K env (usable_size K vol)
               \<lparr>pos = 0, ppos = 0, upl = False, logfile_is_empty = True,
                rstr1 = None, rstr2 = None\<rparr> vol of
          None \<Rightarrow> None
        | Some Panics \<Rightarrow> Some Panics
        | Some (Returns r) \<Rightarrow>
            Some (logfile_check_finish g (fst r) (fst (snd r)) (snd (snd r))))
      = Some (Returns (e, out, vol'))"
    by (simp add: ntfs_logfile_check_def)
  then obtain r where sc: "scan_loop K env (usable_size K vol)
               \<lparr>pos = 0, ppos = 0, upl = False, logfile_is_empty = True,
                rstr1 = None, rstr2 = None\<rparr> vol = Some (Returns r)"
    by (cases "scan_loop K env (usable_size K vol)
               \<lparr>pos = 0, ppos = 0, upl = False, logfile_is_empty = True,
                rstr1 = None, rstr2 = None\<rparr> vol") (auto split: call.splits)
  obtain ex v vs where r: "r = (ex, v, vs)"
    by (cases r) auto
  from scan_loop_inv [OF sc] r scan_inv_init [of vol]
  have "LogFileEmpty vs = LogFileEmpty vol \<and> ex \<noteq> Continue"
    by blast
  with unset have vs: "\<not> LogFileEmpty vs" and ex: "ex \<noteq> Continue"
    by (simp_all add: NVolLogFileEmpty_def)
  from c sc r have "logfile_check_finish g ex v vs = Returns (e, out, vol')"
    by simp
  from logfile_check_finish_empty [OF this ex vs]
  have "NVolLogFileEmpty vol' \<longleftrightarrow> ex = Break \<and> logfile_is_empty v"
    by (simp add: NVolLogFileEmpty_def)
  with False sc r show ?thesis
    by auto
qed

lemma logfile_empty_flag_iff:
  "NVolLogFileEmpty (snd (ntfs_logfile_empty env vol)) \<longleftrightarrow>
     NVolLogFileEmpty vol \<or>
     (vnode_get env = 0 \<and> ntfs_attr_set env 0 (data_size vol) 0xff = 0)"
  by (simp add: ntfs_logfile_empty_def NVolLogFileEmpty_def NVolSetLogFileEmpty_def Let_def)

text \<open>
  C10. Once the journal is marked empty, each of \<open>ntfs_logfile_check\<close>,
  \<open>ntfs_logfile_empty\<close> and \<open>ntfs_logfile_is_clean\<close> finds it so and leaves the state
  as it is (\<open>ntfs_logfile_is_clean\<close> has no access to the state but to read the flag).
  \<open>ntfs_logfile_check\<close> never clears the flag. When it starts with the flag unset and
  returns, the flag is set exactly when the vnode was referenced, the journal was not
  too small and the scan ended, not by an error, with \<open>logfile_is_empty\<close> still true;
  it then returns success with no restart page. A scan that ends with
  \<open>logfile_is_empty\<close> true makes the check set the flag, and a scan that ends with it
  false leaves the flag unset, also when the check returns success with no restart
  page. \<open>ntfs_logfile_empty\<close> never clears the flag, and leaves it set exactly when it
  was set before, or the vnode was referenced and the write of \<open>0xff\<close> over the whole
  extent succeeded.
\<close>

theorem empty_flag_monotone:
  "(NVolLogFileEmpty vol \<longrightarrow>
      ntfs_logfile_check K env vol rp_given = Some (Returns (0, None, vol)) \<and>
      ntfs_logfile_empty env vol = (0, vol) \<and>
      ntfs_logfile_is_clean K vol rp = Returns True) \<and>
   (ntfs_logfile_check K env vol rp_given = Some (Returns (e, out, vol')) \<longrightarrow>
      (NVolLogFileEmpty vol \<longrightarrow> NVolLogFileEmpty vol') \<and>
      (NVolLogFileEmpty vol' \<and> \<not> NVolLogFileEmpty vol \<longrightarrow> e = 0 \<and> out = None) \<and>
      (\<not> NVolLogFileEmpty vol \<longrightarrow>
         (NVolLogFileEmpty vol' \<longleftrightarrow>
            vnode_get env = 0 \<and> \<not> logfile_too_small K (usable_size K vol) \<and>
            (\<exists>v vs. scan_loop K env (usable_size K vol)
                       \<lparr>pos = 0, ppos = 0, upl = False, logfile_is_empty = True,
                        rstr1 = None, rstr2 = None\<rparr> vol = Some (Returns (Break, v, vs)) \<and>
                    logfile_is_empty v)))) \<and>
   (\<not> NVolLogFileEmpty vol \<and> vnode_get env = 0 \<and>
    \<not> logfile_too_small K (usable_size K vol) \<and>
    scan_loop K env (usable_size K vol)
      \<lparr>pos = 0, ppos = 0, upl = False, logfile_is_empty = True,
       rstr1 = None, rstr2 = None\<rparr> vol = Some (Returns (Break, sv, svol)) \<longrightarrow>
      (logfile_is_empty sv \<longrightarrow>
         ntfs_logfile_check K env vol rp_given =
           Some (Returns (0, None, NVolSetLogFileEmpty svol)) \<and>
         NVolLogFileEmpty (NVolSetLogFileEmpty svol)) \<and>
      (\<not> logfile_is_empty sv \<longrightarrow>
         (\<forall>r. ntfs_logfile_check K env vol rp_given = Some (Returns r) \<longrightarrow>
            \<not> NVolLogFileEmpty (snd (snd r))))) \<and>
   ((NVolLogFileEmpty vol \<longrightarrow> NVolLogFileEmpty (snd (ntfs_logfile_empty env vol))) \<and>
    (NVolLogFileEmpty (snd (ntfs_logfile_empty env vol)) \<and> \<not> NVolLogFileEmpty vol \<longrightarrow>
       fst (ntfs_logfile_empty env vol) = 0 \<and> vnode_get env = 0 \<and>
       ntfs_attr_set env 0 (data_size vol) 0xff = 0) \<and>
    (NVolLogFileEmpty (snd (ntfs_logfile_empty env vol)) \<longleftrightarrow>
       NVolLogFileEmpty vol \<or>
       (vnode_get env = 0 \<and> ntfs_attr_set env 0 (data_size vol) 0xff = 0)))"
proof -
  have a: "ntfs_logfile_check K env vol rp_given = Some (Returns (0, None, vol)) \<and>
      ntfs_logfile_empty env vol = (0, vol) \<and>
      ntfs_logfile_is_clean K vol rp = Returns True" if "NVolLogFileEmpty vol"
    using that
    by (simp add: ntfs_logfile_check_def ntfs_logfile_empty_def ntfs_logfile_is_clean_def)
  have b: "(NVolLogFileEmpty vol \<longrightarrow> NVolLogFileEmpty vol') \<and>
      (NVolLogFileEmpty vol' \<and> \<not> NVolLogFileEmpty vol \<longrightarrow> e = 0 \<and> out = None)"
    if "ntfs_logfile_check K env vol rp_given = Some (Returns (e, out, vol'))"
    using check_flag [OF that] by (auto simp: NVolLogFileEmpty_def)
  have b': "NVolLogFileEmpty vol' \<longleftrightarrow>
            vnode_get env = 0 \<and> \<not> logfile_too_small K (usable_size K vol) \<and>
            (\<exists>v vs. scan_loop K env (usable_size K vol)
                       \<lparr>pos = 0, ppos = 0, upl = False, logfile_is_empty = True,
                        rstr1 = None, rstr2 = None\<rparr> vol = Some (Returns (Break, v, vs)) \<and>
                    logfile_is_empty v)"
    if "ntfs_logfile_check K env vol rp_given = Some (Returns (e, out, vol'))"
      and "\<not> NVolLogFileEmpty vol"
    using that by (rule check_sets_flag_iff)
  have s: "(logfile_is_empty sv \<longrightarrow>
         ntfs_logfile_check K env vol rp_given =
           Some (Returns (0, None, NVolSetLogFileEmpty svol)) \<and>
         NVolLogFileEmpty (NVolSetLogFileEmpty svol)) \<and>
      (\<not> logfile_is_empty sv \<longrightarrow>
         (\<forall>r. ntfs_logfile_check K env vol rp_given = Some (Returns r) \<longrightarrow>
            \<not> NVolLogFileEmpty (snd (snd r))))"
    if h: "\<not> NVolLogFileEmpty vol" "vnode_get env = 0"
      "\<not> logfile_too_small K (usable_size K vol)"
      "scan_loop K env (usable_size K vol)
        \<lparr>pos = 0, ppos = 0, upl = False, logfile_is_empty = True,
         rstr1 = None, rstr2 = None\<rparr> vol = Some (Returns (Break, sv, svol))"
  proof (intro conjI impI allI)
    assume "logfile_is_empty sv"
    with h show "ntfs_logfile_check K env vol rp_given =
        Some (Returns (0, None, NVolSetLogFileEmpty svol))"
      by (rule check_scan_empty)
  next
    show "NVolLogFileEmpty (NVolSetLogFileEmpty svol)"
      by (simp add: NVolLogFileEmpty_def NVolSetLogFileEmpty_def)
  next
    fix r
    assume n: "\<not> logfile_is_empty sv"
      and r: "ntfs_logfile_check K env vol rp_given = Some (Returns r)"
    obtain e' out' v' where "r = (e', out', v')"
      by (cases r) auto
    with r have "ntfs_logfile_check K env vol rp_given = Some (Returns (e', out', v'))"
      by simp
    from check_sets_flag_iff [OF this h(1)] h(4) n \<open>r = (e', out', v')\<close>
    show "\<not> NVolLogFileEmpty (snd (snd r))"
      by simp
  qed
  have c: "(NVolLogFileEmpty vol \<longrightarrow> NVolLogFileEmpty (snd (ntfs_logfile_empty env vol))) \<and>
    (NVolLogFileEmpty (snd (ntfs_logfile_empty env vol)) \<and> \<not> NVolLogFileEmpty vol \<longrightarrow>
       fst (ntfs_logfile_empty env vol) = 0 \<and> vnode_get env = 0 \<and>
       ntfs_attr_set env 0 (data_size vol) 0xff = 0)"
    by (simp add: ntfs_logfile_empty_def NVolLogFileEmpty_def NVolSetLogFileEmpty_def Let_def)
  note c' = logfile_empty_flag_iff [of env vol]
  show ?thesis
    apply (intro conjI impI)
    using a b b' s c c' apply blast+
    done
qed

theorem empty_flag_monotone_witness:
  "NVolLogFileEmpty ex_wiped \<and>
   ntfs_logfile_check ntfs_k ex_env ex_wiped True = Some (Returns (0, None, ex_wiped)) \<and>
   ntfs_logfile_empty ex_env ex_wiped = (0, ex_wiped) \<and>
   ntfs_logfile_is_clean ntfs_k ex_wiped None = Returns True \<and>
   \<not> NVolLogFileEmpty ex_vol_min \<and> vnode_get ex_env_blank = 0 \<and>
   \<not> logfile_too_small ntfs_k (usable_size ntfs_k ex_vol_min) \<and>
   scan_loop ntfs_k ex_env_blank (usable_size ntfs_k ex_vol_min)
     \<lparr>pos = 0, ppos = 0, upl = False, logfile_is_empty = True, rstr1 = None, rstr2 = None\<rparr>
     ex_vol_min =
     Some (Returns (Break,
       \<lparr>pos = 262144, ppos = 131072, upl = True, logfile_is_empty = True, rstr1 = None,
        rstr2 = None\<rparr>, ex_blank_scanned)) \<and>
   ntfs_logfile_check ntfs_k ex_env_blank ex_vol_min True =
     Some (Returns (0, None, NVolSetLogFileEmpty ex_blank_scanned)) \<and>
   NVolLogFileEmpty (NVolSetLogFileEmpty ex_blank_scanned) \<and>
   \<not> NVolLogFileEmpty ex_vol \<and> vnode_get ex_env = 0 \<and>
   \<not> logfile_too_small ntfs_k (usable_size ntfs_k ex_vol) \<and>
   scan_loop ntfs_k ex_env (usable_size ntfs_k ex_vol)
     \<lparr>pos = 0, ppos = 0, upl = False, logfile_is_empty = True, rstr1 = None, rstr2 = None\<rparr>
     ex_vol =
     Some (Returns (Break,
       \<lparr>pos = 4096, ppos = 4096, upl = True, logfile_is_empty = False,
        rstr1 = Some (0, 100), rstr2 = Some (1, 105)\<rparr>, ex_scanned)) \<and>
   ntfs_logfile_check ntfs_k ex_env ex_vol False =
     Some (Returns (0, None, IOFree 1 (IOFree 0 ex_scanned))) \<and>
   \<not> NVolLogFileEmpty (IOFree 1 (IOFree 0 ex_scanned)) \<and>
   ntfs_attr_set ex_env 0 (data_size ex_vol) 0xff = 0 \<and>
   NVolLogFileEmpty (snd (ntfs_logfile_empty ex_env ex_vol)) \<and>
   fst (ntfs_logfile_empty ex_env ex_vol) = 0"
proof -
  let ?init = "\<lparr>pos = 0, ppos = 0, upl = False, logfile_is_empty = True,
    rstr1 = None, rstr2 = None\<rparr>"
  let ?blank = "\<lparr>pos = 262144, ppos = 131072, upl = True, logfile_is_empty = True,
    rstr1 = None, rstr2 = None :: (nat \<times> LSN) option\<rparr>"
  let ?two = "\<lparr>pos = 4096, ppos = 4096, upl = True, logfile_is_empty = False,
    rstr1 = Some (0, 100 :: LSN), rstr2 = Some (1, 105 :: LSN)\<rparr>"
  have w: "NVolLogFileEmpty ex_wiped"
    by (simp add: ex_vol_simps)
  have mv: "vnode_get ex_env_blank = 0"
    by (simp add: ex_env_blank_def ex_env_def)
  have m: "\<not> NVolLogFileEmpty ex_vol_min"
    "\<not> logfile_too_small ntfs_k (usable_size ntfs_k ex_vol_min)"
    "scan_loop ntfs_k ex_env_blank (usable_size ntfs_k ex_vol_min) ?init ex_vol_min =
       Some (Returns (Break, ?blank, ex_blank_scanned))"
    by (simp_all add: ex_vol_simps ex_blank_scan logfile_too_small_def ntfs_k_simps ex_ffs)
  have mb: "logfile_is_empty ?blank"
    by simp
  have v: "\<not> NVolLogFileEmpty ex_vol" "vnode_get ex_env = 0"
    "\<not> logfile_too_small ntfs_k (usable_size ntfs_k ex_vol)"
    "scan_loop ntfs_k ex_env (usable_size ntfs_k ex_vol) ?init ex_vol =
       Some (Returns (Break, ?two, ex_scanned))"
    by (simp_all add: ex_vol_simps ex_env_simps ex_usable ex_not_small ex_scan)
  have vb: "\<not> logfile_is_empty ?two"
    by simp
  have c: "ntfs_logfile_check ntfs_k ex_env ex_vol False =
      Some (Returns (0, None, IOFree 1 (IOFree 0 ex_scanned)))"
    using v by (simp add: ntfs_logfile_check_def logfile_check_finish_def keep_more_recent_def)
  have e: "ntfs_attr_set ex_env 0 (data_size ex_vol) 0xff = 0"
    by (simp add: ex_env_def)
  note t1 = empty_flag_monotone [where vol = ex_wiped and K = ntfs_k and env = ex_env
      and rp_given = True and rp = None]
  note t2 = empty_flag_monotone [where vol = ex_vol_min and K = ntfs_k and env = ex_env_blank
      and rp_given = True and sv = ?blank and svol = ex_blank_scanned]
  note t3 = empty_flag_monotone [where vol = ex_vol and K = ntfs_k and env = ex_env
      and rp_given = False and sv = ?two and svol = ex_scanned]
  from t1 w have r1: "ntfs_logfile_check ntfs_k ex_env ex_wiped True =
      Some (Returns (0, None, ex_wiped)) \<and>
    ntfs_logfile_empty ex_env ex_wiped = (0, ex_wiped) \<and>
    ntfs_logfile_is_clean ntfs_k ex_wiped None = Returns True"
    by blast
  from t2 m mv mb have r2: "ntfs_logfile_check ntfs_k ex_env_blank ex_vol_min True =
      Some (Returns (0, None, NVolSetLogFileEmpty ex_blank_scanned)) \<and>
    NVolLogFileEmpty (NVolSetLogFileEmpty ex_blank_scanned)"
    by blast
  from t3 v vb have "\<forall>r. ntfs_logfile_check ntfs_k ex_env ex_vol False = Some (Returns r) \<longrightarrow>
      \<not> NVolLogFileEmpty (snd (snd r))"
    by blast
  with c have r3: "\<not> NVolLogFileEmpty (IOFree 1 (IOFree 0 ex_scanned))"
    by simp
  from t3 v(1,2) e have r4: "NVolLogFileEmpty (snd (ntfs_logfile_empty ex_env ex_vol))"
    by blast
  with t3 v(1) have r5: "fst (ntfs_logfile_empty ex_env ex_vol) = 0"
    by blast
  from w m mv v c e r1 r2 r3 r4 r5 show ?thesis
    by (simp only: simp_thms)
qed


end
